theory Spec2Isabelle
  imports Complex_Main "HOL-Library.Multiset"
begin

section \<open>Exceptions\<close>

text \<open>
  A thrown exception or a rejected promise: the \<open>RangeError\<close> of an array that cannot
  grow, the \<open>TypeError\<close> of a value that cannot be converted, or any other error with
  its message.
\<close>

datatype exn = RangeError | TypeError | Exn string

section \<open>Text segmenter: \<open>chunkText\<close> (server.js and generateEmbeddings.js)\<close>

text \<open>
  Both files hold the same function:
  \<^verbatim>\<open>
  const chunkText = (text, chunkSize = 1500) => {
      const chunks = [];
      for (let i = 0; i < text.length; i += chunkSize) {
          chunks.push(text.substring(i, i + chunkSize));
      }
      return chunks;
  };
  \<close>
  A JavaScript string is a sequence of UTF-16 code units; \<open>text.length\<close> and
  \<open>substring\<close> count code units. The function never looks at a unit, so the model
  is polymorphic in the unit type: \<open>text\<close> is a list. \<open>chunkSize\<close> is an integer
  of either sign; the loop index \<open>i\<close> is an integer too, since a negative
  \<open>chunkSize\<close> drives it below zero.
\<close>

text \<open>
  \<open>String.prototype.substring\<close>: both arguments are clamped to \<open>[0, length]\<close> and
  swapped when the first exceeds the second.
\<close>

definition substring :: "'a list \<Rightarrow> int \<Rightarrow> int \<Rightarrow> 'a list" where
  "substring s indexStart indexEnd =
     (let len = int (length s);
          finalStart = min (max indexStart 0) len;
          finalEnd = min (max indexEnd 0) len;
          lo = min finalStart finalEnd;
          hi = max finalStart finalEnd
      in take (nat (hi - lo)) (drop (nat lo) s))"

text \<open>
  The \<open>for\<close> loop on arrays of any length: the condition alone decides when it ends,
  so it is a partial function. \<open>Some chunks\<close> is the array that is returned; \<open>None\<close>
  says that no value is returned, because the condition never becomes false. This is
  the loop as long as the array can grow. An engine's arrays have a maximal length:
  there, a loop whose condition never becomes false ends with the exception of
  \<open>push\<close>, which \<open>chunkLoopWithin\<close> below models.
\<close>

partial_function (option) chunkLoop ::
  "'a list \<Rightarrow> int \<Rightarrow> int \<Rightarrow> 'a list list \<Rightarrow> 'a list list option" where
  "chunkLoop text chunkSize i chunks =
     (if i < int (length text)
      then chunkLoop text chunkSize (i + chunkSize) (chunks @ [substring text i (i + chunkSize)])
      else Some chunks)"

definition chunkText :: "'a list \<Rightarrow> int \<Rightarrow> 'a list list option" where
  "chunkText text chunkSize = chunkLoop text chunkSize 0 []"

text \<open>
  An array holds at most \<open>limit\<close> elements (\<open>2^32 - 1\<close> in the language definition,
  fewer in an engine): \<open>push\<close> on an array that is full throws a \<open>RangeError\<close>
  (invalid array length).
\<close>

definition push :: "nat \<Rightarrow> 'a list \<Rightarrow> 'a \<Rightarrow> exn + 'a list" where
  "push limit array x = (if length array < limit then Inr (array @ [x]) else Inl RangeError)"

text \<open>
  The loop with that limit. Every iteration makes the array longer, so the loop is
  total: it ends when the index reaches \<open>text.length\<close>, or with the exception of
  \<open>push\<close>.
\<close>

function chunkLoopWithin ::
  "nat \<Rightarrow> 'a list \<Rightarrow> int \<Rightarrow> int \<Rightarrow> 'a list list \<Rightarrow> exn + 'a list list" where
  "chunkLoopWithin limit text chunkSize i chunks =
     (if i < int (length text)
      then (case push limit chunks (substring text i (i + chunkSize)) of
              Inl e \<Rightarrow> Inl e
            | Inr chunks' \<Rightarrow> chunkLoopWithin limit text chunkSize (i + chunkSize) chunks')
      else Inr chunks)"
  by pat_completeness auto
termination
  by (relation "measure (\<lambda>(limit, text, chunkSize, i, chunks). limit - length chunks)")
    (auto simp: push_def split: if_splits)

declare chunkLoopWithin.simps [simp del]

definition chunkTextWithin :: "nat \<Rightarrow> 'a list \<Rightarrow> int \<Rightarrow> exn + 'a list list" where
  "chunkTextWithin limit text chunkSize = chunkLoopWithin limit text chunkSize 0 []"

text \<open>
  The segmentation the specification describes, as a total function: cut \<open>n\<close> units off
  the front until nothing is left. It is used to name the result of the loop.
\<close>

function segment_spec :: "nat \<Rightarrow> 'a list \<Rightarrow> 'a list list" where
  "segment_spec n xs = (if xs = [] \<or> n = 0 then [] else take n xs # segment_spec n (drop n xs))"
  by pat_completeness auto
termination
  by (relation "measure (\<lambda>(n, xs). length xs)") auto

declare segment_spec.simps [simp del]

section \<open>Text sanitizer: \<open>sanitizeText\<close> (server.js and generateEmbeddings.js)\<close>

text \<open>
  \<^verbatim>\<open>
  const sanitizeText = (text) => {
      return text
      .replace(/[^\p{L}\p{N}\p{P}\p{Zs}\n\r\t]/gu, ' ')
      .replace(/[ \t]+/g, ' ')
      .replace(/\n{3,}/g, '\n\n')
      .trim();
  };
  \<close>
  The first expression has the flag \<open>u\<close> and matches code points, so the text is
  modelled as the list of its code points (a surrogate pair is one element). The later
  steps match blanks, line feeds and white space only, none of which is part of a pair.

  The Unicode general categories are tables of the JavaScript engine, not of the
  repository: they are a parameter.
\<close>

type_synonym codepoint = nat

record unicode_categories =
  isLetter :: "codepoint \<Rightarrow> bool"
  isNumber :: "codepoint \<Rightarrow> bool"
  isPunctuation :: "codepoint \<Rightarrow> bool"
  isSpaceSeparator :: "codepoint \<Rightarrow> bool"

text \<open>
  The categories of the code points below 128, for running the functions on ASCII
  texts: letters \<open>A-Z a-z\<close>, digits, the punctuation characters (currency, mathematical
  and modifier symbols such as \<open>$ + < = > ^ ` | ~\<close> are symbols, not punctuation), and the
  space. From 128 on these tables are empty; they are applied to ASCII texts only.
\<close>

definition asciiCategories :: unicode_categories where
  "asciiCategories =
     \<lparr> isLetter = (\<lambda>c. (65 \<le> c \<and> c \<le> 90) \<or> (97 \<le> c \<and> c \<le> 122)),
       isNumber = (\<lambda>c. 48 \<le> c \<and> c \<le> 57),
       isPunctuation = (\<lambda>c. c \<in> set [33, 34, 35, 37, 38, 39, 40, 41, 42, 44, 45, 46, 47,
                                      58, 59, 63, 64, 91, 92, 93, 95, 123, 125]),
       isSpaceSeparator = (\<lambda>c. c = 32) \<rparr>"

text \<open>The class \<^verbatim>\<open>[\p{L}\p{N}\p{P}\p{Zs}\n\r\t]\<close>.\<close>

definition inKeptClass :: "unicode_categories \<Rightarrow> codepoint \<Rightarrow> bool" where
  "inKeptClass U c \<longleftrightarrow>
     isLetter U c \<or> isNumber U c \<or> isPunctuation U c \<or> isSpaceSeparator U c
     \<or> c = 10 \<or> c = 13 \<or> c = 9"

text \<open>
  \<^verbatim>\<open>.replace(/[^\p{L}\p{N}\p{P}\p{Zs}\n\r\t]/gu, ' ')\<close>: every code point outside the
  class is replaced by a space (code point 32).
\<close>

definition replaceDisallowed :: "unicode_categories \<Rightarrow> codepoint list \<Rightarrow> codepoint list" where
  "replaceDisallowed U text = map (\<lambda>c. if inKeptClass U c then c else 32) text"

text \<open>
  \<^verbatim>\<open>.replace(/[ \t]+/g, ' ')\<close>: scanning from the left, a maximal run of spaces and
  tabs becomes one space.
\<close>

definition isBlank :: "codepoint \<Rightarrow> bool" where
  "isBlank c \<longleftrightarrow> c = 32 \<or> c = 9"

function collapseBlanks :: "codepoint list \<Rightarrow> codepoint list" where
  "collapseBlanks [] = []"
| "collapseBlanks (c # cs) =
     (if isBlank c then 32 # collapseBlanks (dropWhile isBlank cs)
      else c # collapseBlanks cs)"
  by pat_completeness auto
termination
  by (relation "measure length") (auto simp: less_Suc_eq_le length_dropWhile_le)

text \<open>
  \<^verbatim>\<open>.replace(/\n{3,}/g, '\n\n')\<close>: where three or more line feeds start, the whole
  run becomes two line feeds.
\<close>

definition isNewline :: "codepoint \<Rightarrow> bool" where
  "isNewline c \<longleftrightarrow> c = 10"

function collapseNewlines :: "codepoint list \<Rightarrow> codepoint list" where
  "collapseNewlines [] = []"
| "collapseNewlines (c # cs) =
     (if isNewline c \<and> 2 \<le> length (takeWhile isNewline cs)
      then 10 # 10 # collapseNewlines (dropWhile isNewline cs)
      else c # collapseNewlines cs)"
  by pat_completeness auto
termination
  by (relation "measure length") (auto simp: less_Suc_eq_le length_dropWhile_le)

text \<open>
  \<open>String.prototype.trim\<close> removes white space and line terminators at both ends:
  tab, line feed, vertical tab, form feed, carriage return, space, no-break space,
  the byte order mark, the line and paragraph separators, and the space separators.
\<close>

definition trim :: "('a \<Rightarrow> bool) \<Rightarrow> 'a list \<Rightarrow> 'a list" where
  "trim isSpace s = rev (dropWhile isSpace (rev (dropWhile isSpace s)))"

definition isWhiteSpace :: "unicode_categories \<Rightarrow> codepoint \<Rightarrow> bool" where
  "isWhiteSpace U c \<longleftrightarrow>
     c = 9 \<or> c = 11 \<or> c = 12 \<or> c = 32 \<or> c = 160 \<or> c = 65279 \<or> isSpaceSeparator U c
     \<or> c = 10 \<or> c = 13 \<or> c = 8232 \<or> c = 8233"

definition sanitizeText :: "unicode_categories \<Rightarrow> codepoint list \<Rightarrow> codepoint list" where
  "sanitizeText U text =
     trim (isWhiteSpace U) (collapseNewlines (collapseBlanks (replaceDisallowed U text)))"

text \<open>
  The sanitizer as claim C4 words it, for comparison: the characters outside the class
  are deleted, and the rest is normalised and trimmed in the same way.
\<close>

definition removeDisallowed_spec :: "unicode_categories \<Rightarrow> codepoint list \<Rightarrow> codepoint list" where
  "removeDisallowed_spec U text = filter (inKeptClass U) text"

definition sanitize_spec :: "unicode_categories \<Rightarrow> codepoint list \<Rightarrow> codepoint list" where
  "sanitize_spec U text =
     trim (isWhiteSpace U) (collapseNewlines (collapseBlanks (removeDisallowed_spec U text)))"

text \<open>
  The shapes the steps establish: no tab and no two adjacent spaces; no three line
  feeds in a row; only code points of the class (the space is one of them whenever the
  tables know it as a space separator).
\<close>

fun noBlankRuns :: "codepoint list \<Rightarrow> bool" where
  "noBlankRuns [] = True"
| "noBlankRuns [c] = (c \<noteq> 9)"
| "noBlankRuns (c # d # cs) = (c \<noteq> 9 \<and> \<not> (c = 32 \<and> d = 32) \<and> noBlankRuns (d # cs))"

fun shortNewlineRuns :: "codepoint list \<Rightarrow> bool" where
  "shortNewlineRuns [] = True"
| "shortNewlineRuns (c # cs) =
     (\<not> (isNewline c \<and> 2 \<le> length (takeWhile isNewline cs)) \<and> shortNewlineRuns cs)"

definition onlyKept :: "unicode_categories \<Rightarrow> codepoint list \<Rightarrow> bool" where
  "onlyKept U xs \<longleftrightarrow> list_all (\<lambda>c. inKeptClass U c \<or> c = 32) xs"

section \<open>JavaScript values of a conversation history\<close>

text \<open>
  The handler of \<open>POST /chat\<close> stores conversation turns as object literals
  \<^verbatim>\<open>{ role: 'user', parts: [{ text: prompt }] }\<close>: objects, arrays and strings.
  The retriever reads them back with optional chaining, which also produces
  \<open>undefined\<close>. These are the values a history can hold. Texts of the request and of
  the collaborators are \<open>string\<close>s (lists of 8-bit characters).
\<close>

datatype jsval =
    JUndefined
  | JNull
  | JStr string
  | JArr "jsval list"
  | JObj "(string \<times> jsval) list"

definition newline :: string where
  "newline = [CHR 0x0A]"

text \<open>
  Reading a property whose name is neither an array index nor a built-in one (the
  retriever reads \<open>parts\<close> and \<open>text\<close> only): an object gives the value stored
  under the name, or \<open>undefined\<close>; an array or a string has no such property and
  gives \<open>undefined\<close>.
\<close>

fun getProperty :: "jsval \<Rightarrow> string \<Rightarrow> jsval" where
  "getProperty (JObj props) name = (case map_of props name of Some v \<Rightarrow> v | None \<Rightarrow> JUndefined)"
| "getProperty _ name = JUndefined"

text \<open>\<open>v?.name\<close>: \<open>undefined\<close> when \<open>v\<close> is \<open>undefined\<close> or \<open>null\<close>.\<close>

definition optionalChain :: "jsval \<Rightarrow> string \<Rightarrow> jsval" where
  "optionalChain v name = (if v = JUndefined \<or> v = JNull then JUndefined else getProperty v name)"

text \<open>\<open>v ?? d\<close>.\<close>

definition nullish :: "jsval \<Rightarrow> jsval \<Rightarrow> jsval" where
  "nullish v d = (if v = JUndefined \<or> v = JNull then d else v)"

text \<open>\<open>Boolean(v)\<close>: the empty string, \<open>undefined\<close> and \<open>null\<close> are falsy.\<close>

fun truthy :: "jsval \<Rightarrow> bool" where
  "truthy JUndefined = False"
| "truthy JNull = False"
| "truthy (JStr s) = (s \<noteq> [])"
| "truthy (JArr xs) = True"
| "truthy (JObj props) = True"

text \<open>\<open>Array.prototype.join\<close> on strings.\<close>

fun joinStrings :: "string \<Rightarrow> string list \<Rightarrow> string" where
  "joinStrings sep [] = []"
| "joinStrings sep [s] = s"
| "joinStrings sep (s # t # ts) = s @ sep @ joinStrings sep (t # ts)"

text \<open>
  \<open>ToString\<close>, as \<open>join\<close> applies it to the elements of an array, from the first to
  the last: \<open>undefined\<close> and \<open>null\<close> give the empty string, a string is itself, an
  array is joined with commas. A plain object prints as \<open>[object Object]\<close>, unless it
  has a property \<open>toString\<close> of its own: no value of a history is a function, so the
  conversion finds nothing it can call and throws a \<open>TypeError\<close>.
\<close>

fun elementToString :: "jsval \<Rightarrow> exn + string"
  and elementsToStrings :: "jsval list \<Rightarrow> exn + string list" where
  "elementToString JUndefined = Inr []"
| "elementToString JNull = Inr []"
| "elementToString (JStr s) = Inr s"
| "elementToString (JArr xs) =
     (case elementsToStrings xs of Inl e \<Rightarrow> Inl e | Inr ss \<Rightarrow> Inr (joinStrings '','' ss))"
| "elementToString (JObj props) =
     (case map_of props ''toString'' of
        Some v \<Rightarrow> Inl TypeError
      | None \<Rightarrow> Inr ''[object Object]'')"
| "elementsToStrings [] = Inr []"
| "elementsToStrings (x # xs) =
     (case elementToString x of
        Inl e \<Rightarrow> Inl e
      | Inr s \<Rightarrow> (case elementsToStrings xs of Inl e \<Rightarrow> Inl e | Inr ss \<Rightarrow> Inr (s # ss)))"

definition join :: "jsval list \<Rightarrow> string \<Rightarrow> exn + string" where
  "join xs sep =
     (case elementsToStrings xs of Inl e \<Rightarrow> Inl e | Inr ss \<Rightarrow> Inr (joinStrings sep ss))"

text \<open>
  \<open>Array.prototype.slice(start, end)\<close>: a negative argument counts from the end,
  both are clamped to \<open>[0, length]\<close>.
\<close>

definition slice :: "'a list \<Rightarrow> int \<Rightarrow> int \<Rightarrow> 'a list" where
  "slice xs start fin =
     (let len = int (length xs);
          k = (if start < 0 then max (len + start) 0 else min start len);
          final = (if fin < 0 then max (len + fin) 0 else min fin len)
      in take (nat (final - k)) (drop (nat k) xs))"

text \<open>\<open>slice(start)\<close>: the end defaults to the length.\<close>

definition sliceFrom :: "'a list \<Rightarrow> int \<Rightarrow> 'a list" where
  "sliceFrom xs start = slice xs start (int (length xs))"

section \<open>Semantic retriever: \<open>retrieveRelevantChunksVector\<close> (server.js)\<close>

text \<open>
  \<^verbatim>\<open>
  const recentHistoryText = history.slice(-4).map(h => (h?.parts?.text ?? ''))
                                   .filter(Boolean).join('\n');
  const combinedQuery = `${recentHistoryText} \n ${query}`;
  \<close>
\<close>

definition recentHistoryText :: "jsval list \<Rightarrow> exn + string" where
  "recentHistoryText history =
     join (filter truthy
            (map (\<lambda>h. nullish (optionalChain (optionalChain h ''parts'') ''text'') (JStr ''''))
              (sliceFrom history (- 4))))
          newline"

definition combinedQuery :: "string \<Rightarrow> jsval list \<Rightarrow> exn + string" where
  "combinedQuery query history =
     (case recentHistoryText history of
        Inl e \<Rightarrow> Inl e
      | Inr recent \<Rightarrow> Inr (recent @ '' '' @ newline @ '' '' @ query))"

text \<open>
  The corpus vector store \<open>pdfChunksWithEmbeddings\<close> is a list of chunks; a scored
  chunk is what \<open>map\<close> builds from a chunk. Numbers are modelled as reals.
\<close>

record chunk =
  chunk_text :: string
  embedding :: "real list"

record scored =
  scored_text :: string
  score :: real

datatype task_type = RETRIEVAL_QUERY | RETRIEVAL_DOCUMENT

text \<open>
  The collaborators are parameters: \<open>embedContent\<close> is the embedding service
  (\<open>Inl\<close> when the call fails), \<open>cosineSimilarity\<close> is the function of the npm
  package of that name. A call of a service is recorded in a trace.
\<close>

type_synonym embed_service = "string \<Rightarrow> task_type \<Rightarrow> exn + real list"

datatype call = EmbedContent string task_type | SendMessage "jsval list" string

text \<open>
  \<open>Array.prototype.sort\<close> with a comparator is a stable sort: an element goes in
  front of the first element it does not compare greater than, and the elements are
  inserted from the last to the first.
\<close>

fun insertByComparator :: "('a \<Rightarrow> 'a \<Rightarrow> real) \<Rightarrow> 'a \<Rightarrow> 'a list \<Rightarrow> 'a list" where
  "insertByComparator cmp x [] = [x]"
| "insertByComparator cmp x (y # ys) =
     (if cmp x y \<le> 0 then x # y # ys else y # insertByComparator cmp x ys)"

definition sortByComparator :: "('a \<Rightarrow> 'a \<Rightarrow> real) \<Rightarrow> 'a list \<Rightarrow> 'a list" where
  "sortByComparator cmp xs = foldr (insertByComparator cmp) xs []"

text \<open>The comparator \<^verbatim>\<open>(a, b) => b.score - a.score\<close>.\<close>

definition byScoreDescending :: "scored \<Rightarrow> scored \<Rightarrow> real" where
  "byScoreDescending a b = score b - score a"

definition scoreChunks ::
  "(real list \<Rightarrow> real list \<Rightarrow> real) \<Rightarrow> real list \<Rightarrow> chunk list \<Rightarrow> scored list" where
  "scoreChunks cosineSimilarity queryEmbedding store =
     map (\<lambda>c. \<lparr> scored_text = chunk_text c,
                score = cosineSimilarity queryEmbedding (embedding c) \<rparr>) store"

definition retrieveRelevantChunksVector ::
  "embed_service \<Rightarrow> (real list \<Rightarrow> real list \<Rightarrow> real) \<Rightarrow> chunk list
     \<Rightarrow> string \<Rightarrow> jsval list \<Rightarrow> int \<Rightarrow> call list \<times> (exn + string list)" where
  "retrieveRelevantChunksVector embedContent cosineSimilarity store query history topK =
     (if length store = 0 then ([], Inr [])
      else
        (case combinedQuery query history of
           Inl e \<Rightarrow> ([], Inl e)
         | Inr q \<Rightarrow>
             (case embedContent q RETRIEVAL_QUERY of
                Inl e \<Rightarrow> ([EmbedContent q RETRIEVAL_QUERY], Inl e)
              | Inr queryEmbedding \<Rightarrow>
                  let scoredChunks = scoreChunks cosineSimilarity queryEmbedding store;
                      sortedChunks = sortByComparator byScoreDescending scoredChunks
                  in ([EmbedContent q RETRIEVAL_QUERY],
                      Inr (map scored_text (slice sortedChunks 0 topK))))))"

section \<open>Conversation orchestrator: the handler of \<open>POST /chat\<close> (server.js)\<close>

text \<open>
  The request body is \<open>{sessionId: string, prompt: string}\<close>; a field that is
  missing is \<open>None\<close>. \<open>!field\<close> holds for a missing field and for the empty string.
\<close>

record request =
  sessionId :: "string option"
  prompt :: "string option"

definition falsy :: "string option \<Rightarrow> bool" where
  "falsy field = (case field of None \<Rightarrow> True | Some s \<Rightarrow> s = [])"

text \<open>The JSON body of a response: \<open>{error: ...}\<close> or \<open>{response: ...}\<close>.\<close>

datatype json_body = ErrorBody string | ResponseBody string

record response =
  status :: nat
  body :: json_body

text \<open>
  \<open>sessionCache\<close> maps a session id to its stored turn list; \<open>get\<close> hands out a
  copy and \<open>set\<close> stores a copy, so the cache is a map of values and changes only by
  \<open>set\<close>.
\<close>

type_synonym session_cache = "string \<rightharpoonup> jsval list"

text \<open>
  The generation service: \<open>model.startChat({history: chatHistory})\<close>, then
  \<open>sendMessage(fullPrompt)\<close>, then \<open>result?.response?.text?.()\<close>. The chat session
  is given the array \<open>chatHistory\<close> itself, and the handler pushes its two turns onto
  that array and stores it: whatever the session pushes onto its history is part of
  what is stored. \<open>Inl\<close> is a failed call. \<open>Inr (pushed, text)\<close> is a call that
  returned: \<open>pushed\<close> are the turns the session has pushed onto the array, \<open>text\<close> is
  the text of the result, \<open>None\<close> when it has none.
\<close>

type_synonym generate_service = "jsval list \<Rightarrow> string \<Rightarrow> exn + jsval list \<times> string option"

text \<open>The turn \<^verbatim>\<open>{ role: r, parts: [{ text: t }] }\<close>.\<close>

definition turn :: "string \<Rightarrow> string \<Rightarrow> jsval" where
  "turn r t = JObj [(''role'', JStr r), (''parts'', JArr [JObj [(''text'', JStr t)]])]"

text \<open>The white space among the 8-bit characters, for \<open>trim\<close>.\<close>

definition isWhiteSpaceChar :: "char \<Rightarrow> bool" where
  "isWhiteSpaceChar c \<longleftrightarrow> (of_char c :: nat) \<in> set [9, 10, 11, 12, 13, 32, 160]"

definition promptHead :: string where
  \<open>promptHead =
     ''You are a wise and compassionate guide. Your wisdom is rooted entirely in the teachings of the Bhagavad Gita. You will be given CONTEXT from the Gita and a USER QUESTION.'' @
     newline @
     newline @
     ''        Your mission is to help the user by applying the timeless principles from the CONTEXT to their modern-day problem.'' @
     newline @
     newline @
     ''        **Your Rules:**'' @
     newline @
     ''        1.  **PRIORITY ONE - SAFETY:** If the user's message expresses suicidal thoughts, severe depression, or intent to self-harm, you MUST drop your Gita persona immediately. Your ONLY response must be: "It sounds like you are going through a difficult time. Please consider reaching out for help. You can connect with people who can support you by calling or texting 988 anytime in the US and Canada. In the UK, you can call 111. These services are free, confidential, and available 24/7. Please reach out for help."'' @
     newline @
     ''        2.  **Embody the Wisdom:** Do NOT act like a machine retrieving text. Speak directly and naturally. Never, under any circumstance, say "based on the text," "according to the context," or any similar phrase.'' @
     newline @
     ''        3.  **Synthesize, Don't Summarize:** Do not just repeat what is in the context. Connect the principles from the Gita directly to the user's specific complaint or question, offering them perspective, clarity, and actionable insight.'' @
     newline @
     ''        4.  **Handle Uncertainty Gracefully:**'' @
     newline @
     ''            * **IF** the provided CONTEXT is not sufficient to answer the user's question directly, you **MUST NOT** say "I cannot answer" or "I don't have enough information."'' @
     newline @
     ''            * Instead, you must choose one of these two options:'' @
     newline @
     ''                * **Ask for Clarification:** Gently ask the user to rephrase or elaborate on their problem. For example: "That is a deep concern. Could you tell me more about the feeling of attachment you are experiencing with this situation?"'' @
     newline @
     ''                * **Suggest a Related Question:** Reframe their query into a related question that the Gita *does* address. For example: "Your question about fairness touches upon the complex nature of action and consequence. A central theme in the Gita is how to perform one's duty without being attached to the outcome. Would you like to explore that idea further?"'' @
     newline @
     ''        5.  **Handle Trivial Questions:** If the user asks a simple conversational question (e.g., "How are you?", "What is your name?") that is unrelated to the Gita, provide a simple, direct answer in character without trying to force a connection to the text.'' @
     newline @
     ''        6.  **Be Laconic:** Do not be over-enthusiastic. If the user query is trivial, reply only what's needed.'' @
     newline @
     ''        7.  **Format your text appropriately**"'' @
     newline @
     newline @
     ''        **CONTEXT:**'' @
     newline @
     ''        ''\<close>

definition promptMiddle :: string where
  \<open>promptMiddle =
     newline @
     newline @
     ''        **USER QUESTION:**'' @
     newline @
     ''        ''\<close>

definition promptTail :: string where
  \<open>promptTail =
     newline @
     newline @
     ''        **Your Guidance:''\<close>

definition fullPrompt :: "string \<Rightarrow> string \<Rightarrow> string" where
  "fullPrompt context userPrompt = promptHead @ context @ promptMiddle @ userPrompt @ promptTail"

definition clarification :: string where
  "clarification = ''Could you share a bit more detail so I can offer clearer guidance?''"

record outcome =
  reply :: response
  cache :: session_cache
  calls :: "call list"

definition chat ::
  "embed_service \<Rightarrow> (real list \<Rightarrow> real list \<Rightarrow> real) \<Rightarrow> generate_service \<Rightarrow> chunk list
     \<Rightarrow> session_cache \<Rightarrow> request \<Rightarrow> outcome" where
  "chat embedContent cosineSimilarity sendMessage store sessionCache req =
     (if falsy (sessionId req) \<or> falsy (prompt req)
      then \<lparr> reply = \<lparr> status = 400, body = ErrorBody ''sessionId and prompt are required'' \<rparr>,
             cache = sessionCache, calls = [] \<rparr>
      else
        let sid = the (sessionId req);
            userPrompt = the (prompt req);
            chatHistory = (case sessionCache sid of None \<Rightarrow> [] | Some turns \<Rightarrow> turns);
            (embedCalls, retrieved) =
              retrieveRelevantChunksVector embedContent cosineSimilarity store userPrompt chatHistory 3
        in (case retrieved of
              Inl e \<Rightarrow>
                \<lparr> reply = \<lparr> status = 500, body = ErrorBody ''An internal server error occurred.'' \<rparr>,
                  cache = sessionCache, calls = embedCalls \<rparr>
            | Inr contextChunks \<Rightarrow>
                let context = joinStrings (newline @ newline @ ''---'' @ newline @ newline) contextChunks;
                    message = fullPrompt context userPrompt;
                    generateCalls = embedCalls @ [SendMessage chatHistory message]
                in (case sendMessage chatHistory message of
                      Inl e \<Rightarrow>
                        \<lparr> reply = \<lparr> status = 500,
                                    body = ErrorBody ''An internal server error occurred.'' \<rparr>,
                          cache = sessionCache, calls = generateCalls \<rparr>
                    | Inr (pushed, result) \<Rightarrow>
                        let text = (case result of None \<Rightarrow> [] | Some t \<Rightarrow> t);
                            finalText = (if length (trim isWhiteSpaceChar text) > 0 then text
                                         else clarification);
                            chatHistory' = chatHistory @ pushed
                                             @ [turn ''user'' userPrompt, turn ''model'' finalText]
                        in \<lparr> reply = \<lparr> status = 200, body = ResponseBody finalText \<rparr>,
                             cache = sessionCache(sid \<mapsto> chatHistory'),
                             calls = generateCalls \<rparr>)))"

text \<open>A recorded call failed: the service answered it with an exception.\<close>

definition callFails :: "embed_service \<Rightarrow> generate_service \<Rightarrow> call \<Rightarrow> bool" where
  "callFails embedContent sendMessage c =
     (case c of
        EmbedContent q t \<Rightarrow> isl (embedContent q t)
      | SendMessage history message \<Rightarrow> isl (sendMessage history message))"

section \<open>Loading the store: \<open>loadEmbeddings\<close> and \<open>startServer\<close> (server.js)\<close>

text \<open>
  \<open>JSON.parse\<close> gives a JSON value. Its property \<open>length\<close> is the number of
  elements of an array, the number of units of a string, the member named
  \<open>length\<close> of an object, and \<open>undefined\<close> otherwise.
\<close>

datatype json =
    JsonNull
  | JsonBool bool
  | JsonNumber real
  | JsonString string
  | JsonArray "json list"
  | JsonObject "(string \<times> json) list"

text \<open>\<open>!v\<close>: \<open>null\<close>, \<open>false\<close>, \<open>0\<close> and the empty string are falsy.\<close>

fun jsonFalsy :: "json \<Rightarrow> bool" where
  "jsonFalsy JsonNull = True"
| "jsonFalsy (JsonBool b) = (\<not> b)"
| "jsonFalsy (JsonNumber r) = (r = 0)"
| "jsonFalsy (JsonString s) = (s = [])"
| "jsonFalsy (JsonArray xs) = False"
| "jsonFalsy (JsonObject members) = False"

text \<open>\<open>v.length === 0\<close>, for a value that is not \<open>null\<close>.\<close>

fun lengthIsZero :: "json \<Rightarrow> bool" where
  "lengthIsZero (JsonArray xs) = (length xs = 0)"
| "lengthIsZero (JsonString s) = (length s = 0)"
| "lengthIsZero (JsonObject members) =
     (case map_of members ''length'' of Some (JsonNumber r) \<Rightarrow> r = 0 | _ \<Rightarrow> False)"
| "lengthIsZero _ = False"

text \<open>
  The outcome of start-up: the process has exited with a code, or the store is loaded.
  \<open>readFile\<close> is the outcome of reading \<open>gita-embeddings.json\<close>, \<open>parse\<close> is
  \<open>JSON.parse\<close>. Every exception in the \<open>try\<close> block ends in \<open>process.exit(1)\<close>.
\<close>

datatype load_result = ProcessExit nat | Loaded json

definition loadEmbeddings :: "(exn + string) \<Rightarrow> (string \<Rightarrow> exn + json) \<Rightarrow> load_result" where
  "loadEmbeddings readFile parse =
     (case readFile of
        Inl e \<Rightarrow> ProcessExit 1
      | Inr data \<Rightarrow>
          (case parse data of
             Inl e \<Rightarrow> ProcessExit 1
           | Inr pdfChunksWithEmbeddings \<Rightarrow>
               if jsonFalsy pdfChunksWithEmbeddings \<or> lengthIsZero pdfChunksWithEmbeddings
               then ProcessExit 1
               else Loaded pdfChunksWithEmbeddings))"

datatype server = Exited nat | Listening json

definition startServer :: "(exn + string) \<Rightarrow> (string \<Rightarrow> exn + json) \<Rightarrow> server" where
  "startServer readFile parse =
     (case loadEmbeddings readFile parse of
        ProcessExit code \<Rightarrow> Exited code
      | Loaded store \<Rightarrow> Listening store)"

text \<open>
  The store the specification calls well-formed: a non-empty sequence of records, each
  with a string \<open>text\<close> and a sequence of numbers \<open>embedding\<close>.
\<close>

fun isNumber_json :: "json \<Rightarrow> bool" where
  "isNumber_json (JsonNumber r) = True"
| "isNumber_json _ = False"

fun wellFormedRecord_spec :: "json \<Rightarrow> bool" where
  "wellFormedRecord_spec (JsonObject members) =
     (case (map_of members ''text'', map_of members ''embedding'') of
        (Some (JsonString t), Some (JsonArray vs)) \<Rightarrow> list_all isNumber_json vs
      | _ \<Rightarrow> False)"
| "wellFormedRecord_spec _ = False"

fun wellFormedStore_spec :: "json \<Rightarrow> bool" where
  "wellFormedStore_spec (JsonArray xs) = (xs \<noteq> [] \<and> list_all wellFormedRecord_spec xs)"
| "wellFormedStore_spec _ = False"

section \<open>Properties of the segmenter\<close>

lemma substring_window:
  assumes "0 \<le> i" and "0 < n"
  shows "substring s i (i + n) = take (nat n) (drop (nat i) s)"
proof (cases "i \<le> int (length s)")
  case True
  show ?thesis
  proof (cases "i + n \<le> int (length s)")
    case True
    with assms \<open>i \<le> int (length s)\<close> show ?thesis
      by (simp add: substring_def Let_def min_def max_def)
  next
    case False
    with assms \<open>i \<le> int (length s)\<close> have "nat n \<ge> length s - nat i" by linarith
    with assms False \<open>i \<le> int (length s)\<close> show ?thesis
      by (simp add: substring_def Let_def min_def max_def nat_diff_distrib)
  qed
next
  case False
  with assms show ?thesis
    by (simp add: substring_def Let_def min_def max_def)
qed

text \<open>With a positive step the loop ends, and it returns the segmentation of the rest.\<close>

lemma chunkLoop_positive:
  assumes "0 < n" and "0 \<le> i"
  shows "chunkLoop s n i acc = Some (acc @ segment_spec (nat n) (drop (nat i) s))"
  using assms(2)
proof (induction "nat (int (length s) - i)" arbitrary: i acc rule: less_induct)
  case less
  show ?case
  proof (cases "i < int (length s)")
    case True
    have step: "nat (int (length s) - (i + n)) < nat (int (length s) - i)"
      using True assms(1) by linarith
    have nn: "0 \<le> i + n" using less.prems assms(1) by linarith
    have ne: "drop (nat i) s \<noteq> []" using True less.prems by simp
    have dd: "drop (nat (i + n)) s = drop (nat n) (drop (nat i) s)"
      using less.prems assms(1) by (simp add: nat_add_distrib add.commute)
    have "chunkLoop s n i acc =
          chunkLoop s n (i + n) (acc @ [substring s i (i + n)])"
      using True by (subst chunkLoop.simps) simp
    also have "\<dots> = Some ((acc @ [substring s i (i + n)]) @
                  segment_spec (nat n) (drop (nat (i + n)) s))"
      by (rule less.hyps [OF step nn])
    also have "\<dots> = Some (acc @ segment_spec (nat n) (drop (nat i) s))"
      using ne assms(1) less.prems
      by (subst (2) segment_spec.simps) (simp add: substring_window dd)
    finally show ?thesis .
  next
    case False
    then have "drop (nat i) s = []" by simp
    with False show ?thesis
      by (subst chunkLoop.simps) (simp add: segment_spec.simps)
  qed
qed

lemma chunkText_positive: "0 < n \<Longrightarrow> chunkText s n = Some (segment_spec (nat n) s)"
  using chunkLoop_positive [of n 0 s "[]"] by (simp add: chunkText_def)

lemma concat_segment_spec: "0 < n \<Longrightarrow> concat (segment_spec n xs) = xs"
proof (induction n xs rule: segment_spec.induct)
  case (1 n xs)
  then show ?case by (subst segment_spec.simps) auto
qed

lemma length_in_segment_spec: "c \<in> set (segment_spec n xs) \<Longrightarrow> c \<noteq> [] \<and> length c \<le> n"
proof (induction n xs rule: segment_spec.induct)
  case (1 n xs)
  from "1.prems" have ne: "xs \<noteq> []" "n \<noteq> 0"
    by (auto simp: segment_spec.simps [of n xs] split: if_splits)
  with "1.prems" have "c = take n xs \<or> c \<in> set (segment_spec n (drop n xs))"
    by (auto simp: segment_spec.simps [of n xs])
  then show ?case using ne "1.IH" by auto
qed

lemma nth_segment_spec:
  "k < length (segment_spec n xs) \<Longrightarrow> segment_spec n xs ! k = take n (drop (k * n) xs)"
proof (induction n xs arbitrary: k rule: segment_spec.induct)
  case (1 n xs)
  from "1.prems" have ne: "xs \<noteq> []" "n \<noteq> 0"
    by (auto simp: segment_spec.simps [of n xs] split: if_splits)
  show ?case
  proof (cases k)
    case 0
    with ne show ?thesis by (simp add: segment_spec.simps [of n xs])
  next
    case (Suc j)
    with "1.prems" ne have "j < length (segment_spec n (drop n xs))"
      by (simp add: segment_spec.simps [of n xs])
    from "1.IH" [OF _ this] ne
    have "segment_spec n (drop n xs) ! j = take n (drop (j * n) (drop n xs))"
      by simp
    with Suc ne show ?thesis
      by (simp add: segment_spec.simps [of n xs] add.commute)
  qed
qed

text \<open>
  Claim C2. For every text \<open>t\<close> and every positive integer \<open>n\<close>, \<open>chunkText t n\<close>
  returns a sequence of chunks such that: joining the chunks in order gives \<open>t\<close> back;
  every chunk has at most \<open>n\<close> units; and the \<open>k\<close>-th chunk is the window of \<open>t\<close>
  that starts at offset \<open>k * n\<close> and is \<open>n\<close> units wide (cut at the end of the
  text), so the chunks are contiguous and do not overlap.
\<close>

theorem chunkText_segments:
  assumes "0 < n"
  shows "\<exists>chunks. chunkText t n = Some chunks
           \<and> concat chunks = t
           \<and> (\<forall>c \<in> set chunks. length c \<le> nat n)
           \<and> (\<forall>k < length chunks. chunks ! k = take (nat n) (drop (k * nat n) t))"
proof -
  let ?cs = "segment_spec (nat n) t"
  have "chunkText t n = Some ?cs" using assms by (rule chunkText_positive)
  moreover have "concat ?cs = t" using assms by (simp add: concat_segment_spec)
  moreover have "\<forall>c \<in> set ?cs. length c \<le> nat n"
    using length_in_segment_spec by blast
  moreover have "\<forall>k < length ?cs. ?cs ! k = take (nat n) (drop (k * nat n) t)"
    using nth_segment_spec by blast
  ultimately show ?thesis by blast
qed

theorem chunkText_segments_witness:
  "(0::int) < 3
   \<and> chunkText ''abcdefg'' 3 = Some [''abc'', ''def'', ''g'']
   \<and> (\<exists>chunks. chunkText ''abcdefg'' 3 = Some chunks \<and> concat chunks = ''abcdefg''
                 \<and> list_all (\<lambda>c. length c \<le> 3) chunks)"
proof -
  have pos: "(0::int) < 3" by simp
  have run: "chunkText ''abcdefg'' 3 = Some [''abc'', ''def'', ''g'']"
    by (simp add: chunkText_def chunkLoop.simps substring_def)
  from chunkText_segments [OF pos, of "''abcdefg''"]
  obtain chunks where "chunkText ''abcdefg'' 3 = Some chunks" "concat chunks = ''abcdefg''"
    "\<forall>c \<in> set chunks. length c \<le> nat 3"
    by blast
  then have "\<exists>chunks. chunkText ''abcdefg'' 3 = Some chunks \<and> concat chunks = ''abcdefg''
      \<and> list_all (\<lambda>c. length c \<le> 3) chunks"
    by (auto simp: list_all_iff)
  with pos run show ?thesis by blast
qed

text \<open>
  The loop of an engine, with a positive step: it returns what the loop without the
  limit returns when that fits into an array, and throws otherwise.
\<close>

lemma chunkLoopWithin_positive:
  assumes "0 < n" and "0 \<le> i" and "length acc \<le> limit"
  shows "chunkLoopWithin limit s n i acc =
           (if length acc + length (segment_spec (nat n) (drop (nat i) s)) \<le> limit
            then Inr (acc @ segment_spec (nat n) (drop (nat i) s)) else Inl RangeError)"
  using assms(2,3)
proof (induction "nat (int (length s) - i)" arbitrary: i acc rule: less_induct)
  case less
  show ?case
  proof (cases "i < int (length s)")
    case True
    have step: "nat (int (length s) - (i + n)) < nat (int (length s) - i)"
      using True assms(1) by linarith
    have nn: "0 \<le> i + n" using less.prems assms(1) by linarith
    have ne: "drop (nat i) s \<noteq> []" using True less.prems by simp
    have dd: "drop (nat (i + n)) s = drop (nat n) (drop (nat i) s)"
      using less.prems assms(1) by (simp add: nat_add_distrib add.commute)
    have rest: "segment_spec (nat n) (drop (nat i) s)
        = substring s i (i + n) # segment_spec (nat n) (drop (nat (i + n)) s)"
      using ne assms(1) less.prems
      by (subst segment_spec.simps) (simp add: substring_window dd)
    show ?thesis
    proof (cases "length acc < limit")
      case room: True
      then have len: "length (acc @ [substring s i (i + n)]) \<le> limit" by simp
      have "chunkLoopWithin limit s n i acc
            = chunkLoopWithin limit s n (i + n) (acc @ [substring s i (i + n)])"
        using True room by (subst chunkLoopWithin.simps) (simp add: push_def)
      also note less.hyps [OF step nn len]
      finally show ?thesis by (simp add: rest)
    next
      case full: False
      have "chunkLoopWithin limit s n i acc = Inl RangeError"
        using True full by (subst chunkLoopWithin.simps) (simp add: push_def)
      with full show ?thesis by (simp add: rest)
    qed
  next
    case False
    then have "drop (nat i) s = []" by simp
    with False less.prems show ?thesis
      by (subst chunkLoopWithin.simps) (simp add: segment_spec.simps)
  qed
qed

text \<open>
  With a step \<open>\<le> 0\<close> and a non-empty text the index stays below \<open>text.length\<close>:
  the array grows until \<open>push\<close> throws.
\<close>

lemma chunkLoopWithin_nonpositive:
  assumes "n \<le> 0" and "i \<le> 0" and "s \<noteq> []"
  shows "chunkLoopWithin limit s n i acc = Inl RangeError"
  using assms(2)
proof (induction "limit - length acc" arbitrary: i acc rule: less_induct)
  case less
  from assms(3) less.prems have below: "i < int (length s)" by (cases s) auto
  show ?case
  proof (cases "length acc < limit")
    case True
    then have smaller: "limit - length (acc @ [substring s i (i + n)]) < limit - length acc"
      by simp
    have next_index: "i + n \<le> 0" using assms(1) less.prems by simp
    have "chunkLoopWithin limit s n i acc
          = chunkLoopWithin limit s n (i + n) (acc @ [substring s i (i + n)])"
      using below True by (subst chunkLoopWithin.simps) (simp add: push_def)
    also have "\<dots> = Inl RangeError" by (rule less.hyps [OF smaller next_index])
    finally show ?thesis .
  next
    case False
    with below show ?thesis by (subst chunkLoopWithin.simps) (simp add: push_def)
  qed
qed

text \<open>
  Claim C3, as stated, says that \<open>chunkText\<close> fails exactly when \<open>chunkSize \<le> 0\<close>.
  The function has no check of \<open>chunkSize\<close>. With \<open>chunkSize = 0\<close> and the empty text
  the loop body never runs and the empty array is returned, without a failure.
\<close>

theorem chunkText_nonpositive_counterexample:
  "chunkText '''' 0 = Some [] \<and> chunkTextWithin 4294967295 '''' 0 = Inr []"
  by (simp add: chunkText_def chunkLoop.simps chunkTextWithin_def chunkLoopWithin.simps)

text \<open>
  Claim C3, amended. The function fails only by the \<open>RangeError\<close> of \<open>push\<close>, when
  the array of chunks cannot grow. For \<open>chunkSize \<le> 0\<close> it fails exactly when the text
  is not empty: the index never reaches the end of the text and the array grows until
  \<open>push\<close> throws; on the empty text it returns the empty sequence. For every positive
  \<open>chunkSize\<close> it terminates and returns the chunk sequence (the one of claim C2),
  unless that sequence has more chunks than an array can hold.
\<close>

theorem chunkTextWithin_outcome:
  "(0 < n \<longrightarrow>
      (\<exists>chunks. chunkText t n = Some chunks
         \<and> chunkTextWithin limit t n
             = (if length chunks \<le> limit then Inr chunks else Inl RangeError)))
   \<and> (n \<le> 0 \<and> t = [] \<longrightarrow> chunkTextWithin limit t n = Inr [])
   \<and> (n \<le> 0 \<and> t \<noteq> [] \<longrightarrow> chunkTextWithin limit t n = Inl RangeError)"
proof (intro conjI impI)
  assume pos: "0 < n"
  have "chunkText t n = Some (segment_spec (nat n) t)" using pos by (rule chunkText_positive)
  moreover have "chunkTextWithin limit t n
      = (if length (segment_spec (nat n) t) \<le> limit
         then Inr (segment_spec (nat n) t) else Inl RangeError)"
    using chunkLoopWithin_positive [OF pos, of 0 "[]" limit t] by (simp add: chunkTextWithin_def)
  ultimately show "\<exists>chunks. chunkText t n = Some chunks
         \<and> chunkTextWithin limit t n
             = (if length chunks \<le> limit then Inr chunks else Inl RangeError)"
    by blast
next
  assume "n \<le> 0 \<and> t = []"
  then show "chunkTextWithin limit t n = Inr []"
    by (simp add: chunkTextWithin_def chunkLoopWithin.simps)
next
  assume "n \<le> 0 \<and> t \<noteq> []"
  then show "chunkTextWithin limit t n = Inl RangeError"
    using chunkLoopWithin_nonpositive [of n 0 t limit "[]"] by (simp add: chunkTextWithin_def)
qed

theorem chunkTextWithin_outcome_witness:
  "chunkTextWithin 5 ''abcdefg'' 3 = Inr [''abc'', ''def'', ''g'']
   \<and> chunkTextWithin 2 ''abcdefg'' 3 = Inl RangeError
   \<and> chunkTextWithin 5 ''abcdefg'' 0 = Inl RangeError
   \<and> chunkTextWithin 5 ''abcdefg'' (- 2) = Inl RangeError
   \<and> chunkTextWithin 5 '''' (- 2) = Inr []"
proof -
  have run: "chunkText ''abcdefg'' 3 = Some [''abc'', ''def'', ''g'']"
    by (simp add: chunkText_def chunkLoop.simps substring_def)
  have one: "chunkTextWithin 5 ''abcdefg'' 3 = Inr [''abc'', ''def'', ''g'']"
    using chunkTextWithin_outcome [of 3 "''abcdefg''" 5] run by simp
  have two: "chunkTextWithin 2 ''abcdefg'' 3 = Inl RangeError"
    using chunkTextWithin_outcome [of 3 "''abcdefg''" 2] run by simp
  have three: "chunkTextWithin 5 ''abcdefg'' 0 = Inl RangeError"
    using chunkTextWithin_outcome [of 0 "''abcdefg''" 5] by simp
  have four: "chunkTextWithin 5 ''abcdefg'' (- 2) = Inl RangeError"
    using chunkTextWithin_outcome [of "- 2" "''abcdefg''" 5] by simp
  have five: "chunkTextWithin 5 '''' (- 2) = Inr []"
    using chunkTextWithin_outcome [of "- 2" "''''" 5] by simp
  from one two three four five show ?thesis by (intro conjI)
qed

section \<open>Properties of the sanitizer\<close>

lemma isNewline_10 [simp]: "isNewline 10"
  by (simp add: isNewline_def)

text \<open>
  The first step leaves code points of the class and spaces only, and the later steps
  add nothing but spaces and line feeds that were there.
\<close>

lemma onlyKept_replaceDisallowed: "onlyKept U (replaceDisallowed U xs)"
  by (induction xs) (auto simp: onlyKept_def replaceDisallowed_def)

lemma replaceDisallowed_onlyKept: "onlyKept U xs \<Longrightarrow> replaceDisallowed U xs = xs"
  by (induction xs) (auto simp: onlyKept_def replaceDisallowed_def)

lemma onlyKept_subset: "set ys \<subseteq> insert 32 (set xs) \<Longrightarrow> onlyKept U xs \<Longrightarrow> onlyKept U ys"
  by (auto simp: onlyKept_def list_all_iff)

lemma set_collapseBlanks: "set (collapseBlanks xs) \<subseteq> insert 32 (set xs)"
proof (induction xs rule: collapseBlanks.induct)
  case 1
  show ?case by simp
next
  case (2 c cs)
  show ?case
  proof (cases "isBlank c")
    case True
    have "set (dropWhile isBlank cs) \<subseteq> set cs" by (auto dest: set_dropWhileD)
    with 2(1) [OF True] True show ?thesis by auto
  next
    case False
    with 2(2) [OF False] show ?thesis by auto
  qed
qed

lemma set_collapseNewlines: "set (collapseNewlines xs) \<subseteq> set xs"
proof (induction xs rule: collapseNewlines.induct)
  case 1
  show ?case by simp
next
  case (2 c cs)
  show ?case
  proof (cases "isNewline c \<and> 2 \<le> length (takeWhile isNewline cs)")
    case True
    have "set (dropWhile isNewline cs) \<subseteq> set cs" by (auto dest: set_dropWhileD)
    with 2(1) [OF True] True show ?thesis by (auto simp: isNewline_def)
  next
    case False
    with 2(2) [OF False] show ?thesis by auto
  qed
qed

lemma set_trim: "set (trim W xs) \<subseteq> set xs"
  by (auto simp: trim_def dest!: set_dropWhileD)

text \<open>
  The second step leaves no tab and no two adjacent spaces; collapsing line feeds and
  trimming keep that shape.
\<close>

lemma noBlankRuns_Cons:
  "noBlankRuns (c # zs) \<longleftrightarrow> c \<noteq> 9 \<and> (zs = [] \<or> \<not> (c = 32 \<and> hd zs = 32)) \<and> noBlankRuns zs"
  by (cases zs) auto

lemma noBlankRuns_append: "noBlankRuns (xs @ ys) \<Longrightarrow> noBlankRuns xs \<and> noBlankRuns ys"
proof (induction xs)
  case Nil
  then show ?case by simp
next
  case (Cons x xs)
  then show ?case by (cases xs) (auto simp: noBlankRuns_Cons)
qed

lemma noBlankRuns_dropWhile: "noBlankRuns xs \<Longrightarrow> noBlankRuns (dropWhile P xs)"
  using noBlankRuns_append [of "takeWhile P xs" "dropWhile P xs"] by simp

lemma dropWhile_starts: "dropWhile P xs = [] \<or> \<not> P (hd (dropWhile P xs))"
  using hd_dropWhile [of P xs] by blast

lemma hd_collapseBlanks_dropWhile:
  "collapseBlanks (dropWhile isBlank cs) = [] \<or> hd (collapseBlanks (dropWhile isBlank cs)) \<noteq> 32"
  by (induction cs) (auto simp: isBlank_def)

lemma takeWhile_dropWhile_Nil: "takeWhile P (dropWhile P xs) = []"
  by (induction xs) auto

lemma length_takeWhile_append_le:
  "length (takeWhile P xs) \<le> length (takeWhile P (xs @ ys))"
  by (induction xs) auto

lemma dropWhile_trimmed_end:
  "ys = [] \<or> \<not> P (hd ys) \<Longrightarrow>
   dropWhile P (rev (dropWhile P (rev ys))) = rev (dropWhile P (rev ys))"
  by (cases ys) (auto simp: dropWhile_append)

lemma noBlankRuns_collapseBlanks: "noBlankRuns (collapseBlanks xs)"
proof (induction xs rule: collapseBlanks.induct)
  case 1
  show ?case by simp
next
  case (2 c cs)
  show ?case
  proof (cases "isBlank c")
    case True
    let ?ys = "dropWhile isBlank cs"
    have ih: "noBlankRuns (collapseBlanks ?ys)" using 2(1) [OF True] .
    have "collapseBlanks ?ys = [] \<or> hd (collapseBlanks ?ys) \<noteq> 32"
      by (rule hd_collapseBlanks_dropWhile)
    with ih True show ?thesis by (auto simp: noBlankRuns_Cons)
  next
    case False
    have ih: "noBlankRuns (collapseBlanks cs)" using 2(2) [OF False] .
    from False have "c \<noteq> 9" "c \<noteq> 32" by (auto simp: isBlank_def)
    with ih False show ?thesis by (auto simp: noBlankRuns_Cons)
  qed
qed

lemma collapseBlanks_noBlankRuns: "noBlankRuns xs \<Longrightarrow> collapseBlanks xs = xs"
proof (induction xs rule: noBlankRuns.induct)
  case 1
  show ?case by simp
next
  case (2 c)
  then show ?case by (auto simp: isBlank_def)
next
  case (3 c d cs)
  then have d: "d \<noteq> 9" by (cases cs) auto
  from 3 have "collapseBlanks (d # cs) = d # cs" by simp
  with 3(2) d show ?case by (auto simp: isBlank_def)
qed

lemma hd_collapseNewlines: "hd (collapseNewlines xs) = hd xs"
  by (cases xs) (auto simp: isNewline_def)

lemma collapseNewlines_Nil_iff: "collapseNewlines xs = [] \<longleftrightarrow> xs = []"
  by (cases xs) auto

lemma noBlankRuns_collapseNewlines: "noBlankRuns xs \<Longrightarrow> noBlankRuns (collapseNewlines xs)"
proof (induction xs rule: collapseNewlines.induct)
  case 1
  show ?case by simp
next
  case (2 c cs)
  from 2(3) have tail: "noBlankRuns cs" and c9: "c \<noteq> 9" by (auto simp: noBlankRuns_Cons)
  show ?case
  proof (cases "isNewline c \<and> 2 \<le> length (takeWhile isNewline cs)")
    case True
    from tail have "noBlankRuns (dropWhile isNewline cs)" by (rule noBlankRuns_dropWhile)
    from 2(1) [OF True this] True show ?thesis by (auto simp: noBlankRuns_Cons)
  next
    case False
    have ih: "noBlankRuns (collapseNewlines cs)" using 2(2) [OF False tail] .
    have "cs = [] \<or> \<not> (c = 32 \<and> hd cs = 32)" using 2(3) by (auto simp: noBlankRuns_Cons)
    then have "collapseNewlines cs = [] \<or> \<not> (c = 32 \<and> hd (collapseNewlines cs) = 32)"
      by (simp add: hd_collapseNewlines collapseNewlines_Nil_iff)
    with ih c9 False show ?thesis by (auto simp: noBlankRuns_Cons)
  qed
qed

lemma noBlankRuns_trim: "noBlankRuns xs \<Longrightarrow> noBlankRuns (trim W xs)"
proof -
  assume a: "noBlankRuns xs"
  let ?W = W
  let ?ys = "dropWhile ?W xs"
  have ys: "noBlankRuns ?ys" using a by (rule noBlankRuns_dropWhile)
  have "?ys = rev (dropWhile ?W (rev ?ys)) @ rev (takeWhile ?W (rev ?ys))"
    by (metis rev_append rev_rev_ident takeWhile_dropWhile_id)
  with ys noBlankRuns_append [of "rev (dropWhile ?W (rev ?ys))" "rev (takeWhile ?W (rev ?ys))"]
  show ?thesis by (simp add: trim_def)
qed

text \<open>
  The third step leaves no three line feeds in a row, and is the identity on a text of
  that shape; trimming keeps the shape.
\<close>

lemma collapseNewlines_short: "shortNewlineRuns xs \<Longrightarrow> collapseNewlines xs = xs"
  by (induction xs) auto

lemma run_collapseNewlines:
  "length (takeWhile isNewline (collapseNewlines xs)) \<le> length (takeWhile isNewline xs)"
proof (induction xs rule: collapseNewlines.induct)
  case 1
  show ?case by simp
next
  case (2 c cs)
  show ?case
  proof (cases "isNewline c \<and> 2 \<le> length (takeWhile isNewline cs)")
    case True
    let ?ys = "dropWhile isNewline cs"
    have "takeWhile isNewline ?ys = []"
      by (rule takeWhile_dropWhile_Nil)
    with 2(1) [OF True] have "takeWhile isNewline (collapseNewlines ?ys) = []" by simp
    with True show ?thesis by simp
  next
    case False
    with 2(2) [OF False] show ?thesis by auto
  qed
qed

lemma shortNewlineRuns_collapseNewlines: "shortNewlineRuns (collapseNewlines xs)"
proof (induction xs rule: collapseNewlines.induct)
  case 1
  show ?case by simp
next
  case (2 c cs)
  show ?case
  proof (cases "isNewline c \<and> 2 \<le> length (takeWhile isNewline cs)")
    case True
    let ?ys = "dropWhile isNewline cs"
    have "takeWhile isNewline ?ys = []"
      by (rule takeWhile_dropWhile_Nil)
    with run_collapseNewlines [of ?ys]
    have "takeWhile isNewline (collapseNewlines ?ys) = []" by simp
    with 2(1) [OF True] True show ?thesis by simp
  next
    case False
    have "\<not> (isNewline c \<and> 2 \<le> length (takeWhile isNewline (collapseNewlines cs)))"
      using False run_collapseNewlines [of cs] by auto
    with 2(2) [OF False] False show ?thesis by auto
  qed
qed

lemma shortNewlineRuns_append:
  "shortNewlineRuns (xs @ ys) \<Longrightarrow> shortNewlineRuns xs \<and> shortNewlineRuns ys"
proof (induction xs)
  case Nil
  then show ?case by simp
next
  case (Cons x xs)
  have "length (takeWhile isNewline xs) \<le> length (takeWhile isNewline (xs @ ys))"
    by (rule length_takeWhile_append_le)
  with Cons show ?case by auto
qed

lemma shortNewlineRuns_trim: "shortNewlineRuns xs \<Longrightarrow> shortNewlineRuns (trim W xs)"
proof -
  assume a: "shortNewlineRuns xs"
  let ?W = W
  let ?ys = "dropWhile ?W xs"
  have "shortNewlineRuns (takeWhile ?W xs @ ?ys)" using a by simp
  then have ys: "shortNewlineRuns ?ys" by (rule shortNewlineRuns_append [THEN conjunct2])
  have "?ys = rev (dropWhile ?W (rev ?ys)) @ rev (takeWhile ?W (rev ?ys))"
    by (metis rev_append rev_rev_ident takeWhile_dropWhile_id)
  with ys shortNewlineRuns_append [of "rev (dropWhile ?W (rev ?ys))" "rev (takeWhile ?W (rev ?ys))"]
  show ?thesis by (simp add: trim_def)
qed

text \<open>Trimming a trimmed text changes nothing.\<close>

lemma trim_idem: "trim W (trim W xs) = trim W xs"
proof -
  let ?W = W
  let ?ys = "dropWhile ?W xs"
  let ?zs = "rev (dropWhile ?W (rev ?ys))"
  have "?ys = [] \<or> \<not> ?W (hd ?ys)" by (rule dropWhile_starts)
  then have front: "dropWhile ?W ?zs = ?zs" by (rule dropWhile_trimmed_end)
  have rear: "rev (dropWhile ?W (rev ?zs)) = ?zs" by simp
  show ?thesis unfolding trim_def front rear ..
qed

lemma sanitizeText_fixed:
  assumes "onlyKept U xs" "noBlankRuns xs" "shortNewlineRuns xs" "trim (isWhiteSpace U) xs = xs"
  shows "sanitizeText U xs = xs"
  using assms
  by (simp add: sanitizeText_def replaceDisallowed_onlyKept collapseBlanks_noBlankRuns
      collapseNewlines_short)

text \<open>Two adjacent spaces, and so any run of spaces, collapse like one space.\<close>

lemma isBlank_32 [simp]: "isBlank 32"
  by (simp add: isBlank_def)

lemma collapseBlanks_double_space:
  "collapseBlanks (A @ 32 # 32 # B) = collapseBlanks (A @ 32 # B)"
proof (induction A rule: collapseBlanks.induct)
  case 1
  show ?case by simp
next
  case (2 c cs)
  then show ?case by (simp add: dropWhile_append)
qed

lemma collapseBlanks_space_run:
  "collapseBlanks (A @ replicate (Suc n) 32 @ B) = collapseBlanks (A @ 32 # B)"
proof (induction n)
  case 0
  show ?case by simp
next
  case (Suc n)
  have "collapseBlanks (A @ replicate (Suc (Suc n)) 32 @ B)
        = collapseBlanks (A @ 32 # 32 # (replicate n 32 @ B))" by simp
  also have "\<dots> = collapseBlanks (A @ 32 # (replicate n 32 @ B))"
    by (rule collapseBlanks_double_space)
  also have "\<dots> = collapseBlanks (A @ replicate (Suc n) 32 @ B)" by simp
  finally show ?case using Suc by simp
qed

lemma replaceDisallowed_append:
  "replaceDisallowed U (xs @ ys) = replaceDisallowed U xs @ replaceDisallowed U ys"
  by (simp add: replaceDisallowed_def)

lemma replaceDisallowed_all_disallowed:
  "\<forall>d \<in> set ds. \<not> inKeptClass U d \<Longrightarrow> replaceDisallowed U ds = replicate (length ds) 32"
  by (induction ds) (auto simp: replaceDisallowed_def)

lemma replaceDisallowed_space: "replaceDisallowed U (32 # ys) = 32 # replaceDisallowed U ys"
  by (simp add: replaceDisallowed_def)

lemma sanitizeText_disallowed_run:
  assumes "ds \<noteq> []" and "\<forall>d \<in> set ds. \<not> inKeptClass U d"
  shows "sanitizeText U (xs @ ds @ ys) = sanitizeText U (xs @ [32] @ ys)"
proof -
  from assms(1) obtain n where n: "length ds = Suc n" by (cases ds) auto
  have "collapseBlanks (replaceDisallowed U (xs @ ds @ ys))
        = collapseBlanks (replaceDisallowed U xs @ replicate (Suc n) 32 @ replaceDisallowed U ys)"
    using assms(2) n by (simp add: replaceDisallowed_append replaceDisallowed_all_disallowed)
  also have "\<dots> = collapseBlanks (replaceDisallowed U xs @ 32 # replaceDisallowed U ys)"
    by (rule collapseBlanks_space_run)
  also have "\<dots> = collapseBlanks (replaceDisallowed U (xs @ [32] @ ys))"
    by (simp add: replaceDisallowed_append replaceDisallowed_space)
  finally show ?thesis by (simp add: sanitizeText_def)
qed

lemma sanitizeText_two_words:
  assumes "inKeptClass U a" "\<not> isWhiteSpace U a" "inKeptClass U b" "\<not> isWhiteSpace U b"
  shows "sanitizeText U [a, 32, b] = [a, 32, b]"
proof -
  from assms have ne: "a \<noteq> 32" "a \<noteq> 9" "a \<noteq> 10" "b \<noteq> 32" "b \<noteq> 9" "b \<noteq> 10"
    by (auto simp: isWhiteSpace_def)
  have 1: "replaceDisallowed U [a, 32, b] = [a, 32, b]"
    using assms by (simp add: replaceDisallowed_def)
  have 2: "collapseBlanks [a, 32, b] = [a, 32, b]"
    using ne by (simp add: isBlank_def)
  have 3: "collapseNewlines [a, 32, b] = [a, 32, b]"
    using ne by (simp add: isNewline_def)
  have 4: "trim (isWhiteSpace U) [a, 32, b] = [a, 32, b]"
    using assms by (simp add: trim_def)
  show ?thesis by (simp only: sanitizeText_def 1 2 3 4)
qed

text \<open>
  Claim C4, as stated, says that the characters outside the class are deleted, so that
  two allowed characters separated only by disallowed ones become adjacent. The first
  \<open>replace\<close> puts a space in their place: \<open>a\<close>, NUL, \<open>b\<close> becomes \<open>a\<close>, space, \<open>b\<close>,
  where deleting would give \<open>ab\<close>.
\<close>

theorem sanitizeText_deletes_counterexample:
  "sanitizeText asciiCategories [97, 0, 98] = [97, 32, 98]
   \<and> sanitize_spec asciiCategories [97, 0, 98] = [97, 98]
   \<and> sanitizeText asciiCategories [97, 0, 98] \<noteq> sanitize_spec asciiCategories [97, 0, 98]"
  by (simp add: sanitizeText_def sanitize_spec_def removeDisallowed_spec_def
      replaceDisallowed_def inKeptClass_def asciiCategories_def isBlank_def isNewline_def
      isWhiteSpace_def trim_def)

text \<open>
  Claim C4, amended. The sanitizer replaces every character outside the class by a
  space and then normalises and trims: a non-empty run of disallowed characters has
  the effect of one space, wherever it stands, and two allowed characters that are not
  white space and are separated only by disallowed characters end up separated by
  exactly one space.
\<close>

theorem sanitizeText_replaces_by_space:
  assumes "ds \<noteq> []" and "\<forall>d \<in> set ds. \<not> inKeptClass U d"
  shows "sanitizeText U (xs @ ds @ ys) = sanitizeText U (xs @ [32] @ ys)
       \<and> (inKeptClass U a \<and> \<not> isWhiteSpace U a \<and> inKeptClass U b \<and> \<not> isWhiteSpace U b
            \<longrightarrow> sanitizeText U ([a] @ ds @ [b]) = [a, 32, b])"
proof -
  have run: "sanitizeText U (xs @ ds @ ys) = sanitizeText U (xs @ [32] @ ys)" for xs ys
    using assms by (rule sanitizeText_disallowed_run)
  have "sanitizeText U ([a] @ ds @ [b]) = [a, 32, b]"
    if "inKeptClass U a" "\<not> isWhiteSpace U a" "inKeptClass U b" "\<not> isWhiteSpace U b"
    using run [of "[a]" "[b]"] sanitizeText_two_words [OF that] by simp
  with run show ?thesis by blast
qed

theorem sanitizeText_replaces_by_space_witness:
  "[0, 7] \<noteq> ([] :: codepoint list)
   \<and> \<not> inKeptClass asciiCategories 0 \<and> \<not> inKeptClass asciiCategories 7
   \<and> sanitizeText asciiCategories ([104, 105] @ [0, 7] @ [106]) = [104, 105, 32, 106]
   \<and> sanitizeText asciiCategories ([97] @ [0, 7] @ [98]) = [97, 32, 98]"
proof -
  have ne: "[0, 7] \<noteq> ([] :: codepoint list)" by simp
  have dis: "\<forall>d \<in> set [0, 7]. \<not> inKeptClass asciiCategories d"
    by (simp add: inKeptClass_def asciiCategories_def)
  have ab: "inKeptClass asciiCategories 97 \<and> \<not> isWhiteSpace asciiCategories 97
      \<and> inKeptClass asciiCategories 98 \<and> \<not> isWhiteSpace asciiCategories 98"
    by (simp add: inKeptClass_def isWhiteSpace_def asciiCategories_def)
  have one: "sanitizeText asciiCategories ([104, 105] @ [32] @ [106]) = [104, 105, 32, 106]"
    by (simp add: sanitizeText_def replaceDisallowed_def inKeptClass_def asciiCategories_def
        isBlank_def isNewline_def isWhiteSpace_def trim_def)
  from sanitizeText_replaces_by_space [OF ne dis, of "[104, 105]" "[106]" 97 98] ab one dis
  show ?thesis by simp
qed

text \<open>
  Claim C5. The sanitizer is idempotent: sanitizing a sanitized text changes nothing,
  whatever the category tables are.
\<close>

theorem sanitizeText_idempotent:
  "sanitizeText U (sanitizeText U x) = sanitizeText U x"
proof (rule sanitizeText_fixed)
  let ?a = "replaceDisallowed U x"
  let ?b = "collapseBlanks ?a"
  let ?c = "collapseNewlines ?b"
  have "set (trim (isWhiteSpace U) ?c) \<subseteq> insert 32 (set ?a)"
    using set_trim [of "isWhiteSpace U" ?c] set_collapseNewlines [of ?b] set_collapseBlanks [of ?a] by blast
  then show "onlyKept U (sanitizeText U x)"
    unfolding sanitizeText_def by (rule onlyKept_subset) (rule onlyKept_replaceDisallowed)
  show "noBlankRuns (sanitizeText U x)"
    unfolding sanitizeText_def
    by (intro noBlankRuns_trim noBlankRuns_collapseNewlines noBlankRuns_collapseBlanks)
  show "shortNewlineRuns (sanitizeText U x)"
    unfolding sanitizeText_def
    by (intro shortNewlineRuns_trim shortNewlineRuns_collapseNewlines)
  show "trim (isWhiteSpace U) (sanitizeText U x) = sanitizeText U x"
    unfolding sanitizeText_def by (rule trim_idem)
qed

theorem sanitizeText_idempotent_witness:
  "sanitizeText asciiCategories [32, 9, 97, 0, 0, 9, 98, 10, 10, 10, 10, 99, 36, 10]
     = [97, 32, 98, 10, 10, 99]
   \<and> sanitizeText asciiCategories [97, 32, 98, 10, 10, 99] = [97, 32, 98, 10, 10, 99]"
proof -
  have run: "sanitizeText asciiCategories [32, 9, 97, 0, 0, 9, 98, 10, 10, 10, 10, 99, 36, 10]
     = [97, 32, 98, 10, 10, 99]"
    by (simp add: sanitizeText_def replaceDisallowed_def inKeptClass_def asciiCategories_def
        isBlank_def isNewline_def isWhiteSpace_def trim_def)
  have again: "sanitizeText asciiCategories [97, 32, 98, 10, 10, 99] = [97, 32, 98, 10, 10, 99]"
    by (rule sanitizeText_idempotent
        [of asciiCategories "[32, 9, 97, 0, 0, 9, 98, 10, 10, 10, 10, 99, 36, 10]",
          unfolded run])
  show ?thesis
  proof (intro conjI)
    show "sanitizeText asciiCategories [32, 9, 97, 0, 0, 9, 98, 10, 10, 10, 10, 99, 36, 10]
       = [97, 32, 98, 10, 10, 99]" by (fact run)
    show "sanitizeText asciiCategories [97, 32, 98, 10, 10, 99] = [97, 32, 98, 10, 10, 99]"
      by (fact again)
  qed
qed

section \<open>Properties of the retriever\<close>

lemma turn_has_no_text:
  "nullish (optionalChain (optionalChain (turn r t) ''parts'') ''text'') (JStr '''') = JStr ''''"
  by (simp add: turn_def optionalChain_def nullish_def)

text \<open>
  Whatever turns the handler has stored, the retriever finds no text in them:
  \<open>parts\<close> is an array, and an array has no property \<open>text\<close>.
\<close>

lemma recentHistoryText_of_turns:
  assumes "\<forall>h \<in> set history. \<exists>r t. h = turn r t"
  shows "recentHistoryText history = Inr []"
proof -
  let ?f = "\<lambda>h. nullish (optionalChain (optionalChain h ''parts'') ''text'') (JStr '''')"
  have sub: "set (sliceFrom history (- 4)) \<subseteq> set history"
    by (auto simp: sliceFrom_def slice_def Let_def dest: in_set_takeD in_set_dropD)
  have "\<forall>h \<in> set (sliceFrom history (- 4)). ?f h = JStr ''''"
  proof
    fix h
    assume "h \<in> set (sliceFrom history (- 4))"
    with sub have "h \<in> set history" by blast
    with assms obtain r t where "h = turn r t" by blast
    then show "?f h = JStr ''''" by (simp only: turn_has_no_text)
  qed
  then have "filter truthy (map ?f (sliceFrom history (- 4))) = []"
    by (auto simp: filter_empty_conv)
  then show ?thesis by (simp add: recentHistoryText_def join_def)
qed

text \<open>
  Sorting the scored chunks by the comparator is sorting the chunks by their score,
  largest first, with the stable insertion sort of the library.
\<close>

lemma insertByComparator_scored:
  "insertByComparator byScoreDescending
     \<lparr> scored_text = chunk_text x, score = cosineSimilarity queryEmbedding (embedding x) \<rparr>
     (scoreChunks cosineSimilarity queryEmbedding ys)
   = scoreChunks cosineSimilarity queryEmbedding
       (insort_key (\<lambda>c. - cosineSimilarity queryEmbedding (embedding c)) x ys)"
  by (induction ys) (auto simp: byScoreDescending_def scoreChunks_def)

lemma sortByComparator_scored:
  "sortByComparator byScoreDescending (scoreChunks cosineSimilarity queryEmbedding store)
   = scoreChunks cosineSimilarity queryEmbedding
       (sort_key (\<lambda>c. - cosineSimilarity queryEmbedding (embedding c)) store)"
proof (induction store)
  case Nil
  show ?case by (simp add: sortByComparator_def scoreChunks_def)
next
  case (Cons x xs)
  have "sortByComparator byScoreDescending (scoreChunks cosineSimilarity queryEmbedding (x # xs))
        = insertByComparator byScoreDescending
            \<lparr> scored_text = chunk_text x, score = cosineSimilarity queryEmbedding (embedding x) \<rparr>
            (sortByComparator byScoreDescending (scoreChunks cosineSimilarity queryEmbedding xs))"
    by (simp add: sortByComparator_def scoreChunks_def)
  also have "\<dots> = scoreChunks cosineSimilarity queryEmbedding
        (insort_key (\<lambda>c. - cosineSimilarity queryEmbedding (embedding c)) x
           (sort_key (\<lambda>c. - cosineSimilarity queryEmbedding (embedding c)) xs))"
    by (simp only: Cons.IH insertByComparator_scored)
  finally show ?case by simp
qed

lemma scored_texts:
  "map scored_text (take k (scoreChunks cosineSimilarity queryEmbedding xs))
   = map chunk_text (take k xs)"
  by (simp add: scoreChunks_def take_map)

lemma slice_prefix: "0 < k \<Longrightarrow> slice xs 0 k = take (nat k) xs"
  by (simp add: slice_def Let_def min_def)

text \<open>
  Claim C1 says that the text of the turns in the history appears in the combined query.
  The handler stores a turn as \<^verbatim>\<open>{ role, parts: [{ text }] }\<close>, the retriever reads
  \<^verbatim>\<open>h?.parts?.text\<close>: on the array \<open>parts\<close> that is \<open>undefined\<close>, every turn maps
  to the empty string and is filtered out. For the history that a completed request
  leaves behind, the combined query is a space, a line feed, a space and the query: the
  text of the history is absent.
\<close>

theorem combinedQuery_loses_history:
  "combinedQuery ''q'' [turn ''user'' ''hello'', turn ''model'' ''hi'']
     = Inr ('' '' @ newline @ '' q'')"
  by (simp add: combinedQuery_def recentHistoryText_def sliceFrom_def slice_def join_def
      turn_def optionalChain_def nullish_def)

text \<open>
  Claim C6. For a non-empty store, a query embedding \<open>queryEmbedding\<close> that the service
  returns for the combined query, and a positive \<open>topK\<close>, the retriever returns the
  texts (\<open>chunk_text\<close>) of the first \<open>topK\<close> chunks, or of all chunks when the store
  has fewer, of a ranking \<open>ranked\<close> of the store: \<open>ranked\<close> holds the chunks of the
  store, it is ordered by non-increasing
  \<open>cosineSimilarity queryEmbedding (embedding c)\<close>, and chunks of equal score stand in
  the order they have in the store. Scores are real numbers; \<open>cosineSimilarity\<close> is any
  real-valued function.
\<close>

theorem retrieve_topK_ranked:
  assumes "store \<noteq> []"
    and "combinedQuery query history = Inr q"
    and "embedContent q RETRIEVAL_QUERY = Inr queryEmbedding"
    and "0 < topK"
  shows "\<exists>ranked.
           retrieveRelevantChunksVector embedContent cosineSimilarity store query history topK
             = ([EmbedContent q RETRIEVAL_QUERY], Inr (map chunk_text (take (nat topK) ranked)))
         \<and> length (take (nat topK) ranked) = min (nat topK) (length store)
         \<and> mset ranked = mset store
         \<and> sorted_wrt (\<lambda>a b. cosineSimilarity queryEmbedding (embedding b)
                               \<le> cosineSimilarity queryEmbedding (embedding a)) ranked
         \<and> (\<forall>s. filter (\<lambda>c. cosineSimilarity queryEmbedding (embedding c) = s) ranked
                  = filter (\<lambda>c. cosineSimilarity queryEmbedding (embedding c) = s) store)"
proof -
  let ?key = "\<lambda>c. - cosineSimilarity queryEmbedding (embedding c)"
  let ?ranked = "sort_key ?key store"
  have "retrieveRelevantChunksVector embedContent cosineSimilarity store query history topK
          = ([EmbedContent q RETRIEVAL_QUERY], Inr (map chunk_text (take (nat topK) ?ranked)))"
    using assms
    by (simp add: retrieveRelevantChunksVector_def Let_def slice_prefix
        sortByComparator_scored scored_texts)
  moreover have "length (take (nat topK) ?ranked) = min (nat topK) (length store)"
    by (simp add: min.commute)
  moreover have "mset ?ranked = mset store" by simp
  moreover have "sorted_wrt (\<lambda>a b. cosineSimilarity queryEmbedding (embedding b)
                               \<le> cosineSimilarity queryEmbedding (embedding a)) ?ranked"
  proof -
    have "sorted (map ?key ?ranked)" by (rule sorted_sort_key)
    then show ?thesis by (simp add: sorted_map)
  qed
  moreover have "\<forall>s. filter (\<lambda>c. cosineSimilarity queryEmbedding (embedding c) = s) ?ranked
                  = filter (\<lambda>c. cosineSimilarity queryEmbedding (embedding c) = s) store"
  proof
    fix s
    have "filter (\<lambda>c. ?key c = - s) ?ranked = filter (\<lambda>c. ?key c = - s) store"
      by (rule sort_key_stable)
    then show "filter (\<lambda>c. cosineSimilarity queryEmbedding (embedding c) = s) ?ranked
                  = filter (\<lambda>c. cosineSimilarity queryEmbedding (embedding c) = s) store"
      by simp
  qed
  ultimately show ?thesis by blast
qed

theorem retrieve_topK_ranked_witness:
  "retrieveRelevantChunksVector (\<lambda>q t. Inr [1, 0]) (\<lambda>a b. sum_list (map2 (*) a b))
     [\<lparr>chunk_text = ''a'', embedding = [0, 1]\<rparr>, \<lparr>chunk_text = ''b'', embedding = [1, 0]\<rparr>,
      \<lparr>chunk_text = ''c'', embedding = [1, 0]\<rparr>] ''q'' [] 2
     = ([EmbedContent ('' '' @ newline @ '' q'') RETRIEVAL_QUERY], Inr [''b'', ''c''])
   \<and> (\<exists>ranked.
        [''b'', ''c''] = map chunk_text (take 2 ranked)
        \<and> sorted_wrt (\<lambda>a b. sum_list (map2 (*) [1, 0] (embedding b))
                               \<le> sum_list (map2 (*) [1, 0] (embedding a))) ranked
        \<and> filter (\<lambda>c. sum_list (map2 (*) [1, 0] (embedding c)) = 1) ranked
            = [\<lparr>chunk_text = ''b'', embedding = [1, 0]\<rparr>, \<lparr>chunk_text = ''c'', embedding = [1, 0]\<rparr>])"
proof -
  let ?embed = "\<lambda>(q::string) (t::task_type). (Inr [1, 0] :: exn + real list)"
  let ?cos = "\<lambda>(a::real list) b. sum_list (map2 (*) a b)"
  let ?store = "[\<lparr>chunk_text = ''a'', embedding = [0, 1]\<rparr>, \<lparr>chunk_text = ''b'', embedding = [1, 0]\<rparr>,
      \<lparr>chunk_text = ''c'', embedding = [1, 0]\<rparr>]"
  have query: "combinedQuery ''q'' [] = Inr ('' '' @ newline @ '' q'')"
    by (simp add: combinedQuery_def recentHistoryText_def sliceFrom_def slice_def join_def)
  have run: "retrieveRelevantChunksVector ?embed ?cos ?store ''q'' [] 2
      = ([EmbedContent ('' '' @ newline @ '' q'') RETRIEVAL_QUERY], Inr [''b'', ''c''])"
    by (simp add: retrieveRelevantChunksVector_def scoreChunks_def sortByComparator_def
        byScoreDescending_def slice_def query)
  have ne: "?store \<noteq> []" by simp
  have emb: "?embed ('' '' @ newline @ '' q'') RETRIEVAL_QUERY = Inr [1, 0]" by simp
  have pos: "(0::int) < 2" by simp
  from retrieve_topK_ranked [of ?store "''q''" "[]" "'' '' @ newline @ '' q''" ?embed "[1, 0]" 2 ?cos,
      OF ne query emb pos]
  obtain ranked where
    r: "retrieveRelevantChunksVector ?embed ?cos ?store ''q'' [] 2
          = ([EmbedContent ('' '' @ newline @ '' q'') RETRIEVAL_QUERY],
             Inr (map chunk_text (take (nat 2) ranked)))"
    and s: "sorted_wrt (\<lambda>a b. ?cos [1, 0] (embedding b) \<le> ?cos [1, 0] (embedding a)) ranked"
    and f: "\<forall>s. filter (\<lambda>c. ?cos [1, 0] (embedding c) = s) ranked
              = filter (\<lambda>c. ?cos [1, 0] (embedding c) = s) ?store"
    by blast
  from r run have r': "[''b'', ''c''] = map chunk_text (take 2 ranked)"
    by simp
  from f [rule_format, of 1] have f': "filter (\<lambda>c. ?cos [1, 0] (embedding c) = 1) ranked
            = [\<lparr>chunk_text = ''b'', embedding = [1, 0]\<rparr>, \<lparr>chunk_text = ''c'', embedding = [1, 0]\<rparr>]"
    by simp
  show ?thesis
  proof (intro conjI exI)
    show "retrieveRelevantChunksVector ?embed ?cos ?store ''q'' [] 2
      = ([EmbedContent ('' '' @ newline @ '' q'') RETRIEVAL_QUERY], Inr [''b'', ''c''])"
      by (fact run)
    show "[''b'', ''c''] = map chunk_text (take 2 ranked)" by (fact r')
    show "sorted_wrt (\<lambda>a b. ?cos [1, 0] (embedding b) \<le> ?cos [1, 0] (embedding a)) ranked"
      by (fact s)
    show "filter (\<lambda>c. ?cos [1, 0] (embedding c) = 1) ranked
            = [\<lparr>chunk_text = ''b'', embedding = [1, 0]\<rparr>, \<lparr>chunk_text = ''c'', embedding = [1, 0]\<rparr>]"
      by (fact f')
  qed
qed

section \<open>Properties of the handler of \<open>POST /chat\<close>\<close>

text \<open>When the retriever returns chunks, no call in its trace has failed.\<close>

lemma retrieve_returns:
  assumes "retrieveRelevantChunksVector embedContent cosineSimilarity store query history k
             = (cs, Inr texts)"
  shows "\<forall>c \<in> set cs. \<not> callFails embedContent sendMessage c"
  using assms
  by (auto simp: retrieveRelevantChunksVector_def Let_def callFails_def
      split: if_splits sum.splits)

lemma chat_rejects:
  assumes "falsy (sessionId req) \<or> falsy (prompt req)"
  shows "chat embedContent cosineSimilarity sendMessage store sessionCache req
         = \<lparr> reply = \<lparr> status = 400, body = ErrorBody ''sessionId and prompt are required'' \<rparr>,
             cache = sessionCache, calls = [] \<rparr>"
  using assms by (simp add: chat_def)

text \<open>
  The outcomes of a request with both fields: status 500 with the cache unchanged, or
  status 200, no failed call, and the stored turns of the session followed by what the
  chat session pushed and by the two turns of the handler.
\<close>

lemma chat_outcomes:
  fixes embedContent :: embed_service and cosineSimilarity :: "real list \<Rightarrow> real list \<Rightarrow> real"
    and sendMessage :: generate_service and store :: "chunk list"
    and sessionCache :: session_cache and req :: request
  assumes valid: "\<not> falsy (sessionId req)" "\<not> falsy (prompt req)"
  defines "out \<equiv> chat embedContent cosineSimilarity sendMessage store sessionCache req"
  defines "old \<equiv> (case sessionCache (the (sessionId req)) of None \<Rightarrow> [] | Some turns \<Rightarrow> turns)"
  shows "(reply out = \<lparr> status = 500, body = ErrorBody ''An internal server error occurred.'' \<rparr>
            \<and> cache out = sessionCache)
       \<or> (\<exists>finalText pushed.
            reply out = \<lparr> status = 200, body = ResponseBody finalText \<rparr>
            \<and> cache out = sessionCache(the (sessionId req) \<mapsto>
                 old @ pushed @ [turn ''user'' (the (prompt req)), turn ''model'' finalText])
            \<and> (\<forall>c \<in> set (calls out). \<not> callFails embedContent sendMessage c))"
proof -
  obtain cs r where ret:
    "retrieveRelevantChunksVector embedContent cosineSimilarity store (the (prompt req)) old 3
       = (cs, r)"
    by (cases "retrieveRelevantChunksVector embedContent cosineSimilarity store
                 (the (prompt req)) old 3") auto
  show ?thesis
  proof (cases r)
    case (Inl e)
    with valid ret have "out = \<lparr> reply = \<lparr> status = 500,
          body = ErrorBody ''An internal server error occurred.'' \<rparr>,
        cache = sessionCache, calls = cs \<rparr>"
      by (simp add: out_def old_def chat_def Let_def)
    then show ?thesis by simp
  next
    case (Inr texts)
    let ?message = "fullPrompt (joinStrings (newline @ newline @ ''---'' @ newline @ newline) texts)
                      (the (prompt req))"
    from retrieve_returns [OF ret [unfolded Inr]]
    have embed_ok: "\<forall>c \<in> set cs. \<not> callFails embedContent sendMessage c" .
    show ?thesis
    proof (cases "sendMessage old ?message")
      case failed: (Inl e)
      with valid ret Inr have "out = \<lparr> reply = \<lparr> status = 500,
            body = ErrorBody ''An internal server error occurred.'' \<rparr>,
          cache = sessionCache, calls = cs @ [SendMessage old ?message] \<rparr>"
        by (simp add: out_def old_def chat_def Let_def)
      then show ?thesis by simp
    next
      case returned: (Inr answer)
      obtain pushed result where answer: "answer = (pushed, result)" by (cases answer)
      define finalText where "finalText =
        (if length (trim isWhiteSpaceChar (case result of None \<Rightarrow> [] | Some t \<Rightarrow> t)) > 0
         then (case result of None \<Rightarrow> [] | Some t \<Rightarrow> t) else clarification)"
      from valid ret Inr returned answer
      have "out = \<lparr> reply = \<lparr> status = 200, body = ResponseBody finalText \<rparr>,
          cache = sessionCache(the (sessionId req) \<mapsto>
            old @ pushed @ [turn ''user'' (the (prompt req)), turn ''model'' finalText]),
          calls = cs @ [SendMessage old ?message] \<rparr>"
        by (simp add: out_def old_def chat_def Let_def finalText_def)
      moreover have "\<not> callFails embedContent sendMessage (SendMessage old ?message)"
        using returned by (simp add: callFails_def)
      ultimately show ?thesis using embed_ok by auto
    qed
  qed
qed

text \<open>
  Claim C7. If a call of the embedding service or of the generation service fails
  during a request, the response has status 500 and the JSON body
  \<open>{error: 'An internal server error occurred.'}\<close>, and the session cache is what it
  was before the request: neither the user turn nor a model turn is stored.
\<close>

theorem chat_collaborator_failure:
  fixes embedContent :: embed_service and cosineSimilarity :: "real list \<Rightarrow> real list \<Rightarrow> real"
    and sendMessage :: generate_service and store :: "chunk list"
    and sessionCache :: session_cache and req :: request
  defines "out \<equiv> chat embedContent cosineSimilarity sendMessage store sessionCache req"
  assumes failure: "\<exists>c \<in> set (calls out). callFails embedContent sendMessage c"
  shows "status (reply out) = 500
       \<and> body (reply out) = ErrorBody ''An internal server error occurred.''
       \<and> cache out = sessionCache"
proof (cases "falsy (sessionId req) \<or> falsy (prompt req)")
  case True
  then have "calls out = []" unfolding out_def by (simp add: chat_rejects)
  with failure show ?thesis by simp
next
  case False
  then have valid: "\<not> falsy (sessionId req)" "\<not> falsy (prompt req)" by simp_all
  from chat_outcomes [where embedContent = embedContent and cosineSimilarity = cosineSimilarity
      and sendMessage = sendMessage and store = store and sessionCache = sessionCache
      and req = req, OF valid, folded out_def] failure
  show ?thesis by auto
qed

theorem chat_collaborator_failure_witness:
  "callFails (\<lambda>q t. Inl (Exn ''quota'')) (\<lambda>h m. Inr ([], Some ''answer''))
     (EmbedContent ('' '' @ newline @ '' hi'') RETRIEVAL_QUERY)
   \<and> reply (chat (\<lambda>q t. Inl (Exn ''quota'')) (\<lambda>a b. 1) (\<lambda>h m. Inr ([], Some ''answer''))
        [\<lparr>chunk_text = ''a'', embedding = [1]\<rparr>]
        [''s'' \<mapsto> [turn ''user'' ''u'', turn ''model'' ''m'']]
        \<lparr>sessionId = Some ''s'', prompt = Some ''hi''\<rparr>)
      = \<lparr>status = 500, body = ErrorBody ''An internal server error occurred.''\<rparr>
   \<and> cache (chat (\<lambda>q t. Inl (Exn ''quota'')) (\<lambda>a b. 1) (\<lambda>h m. Inr ([], Some ''answer''))
        [\<lparr>chunk_text = ''a'', embedding = [1]\<rparr>]
        [''s'' \<mapsto> [turn ''user'' ''u'', turn ''model'' ''m'']]
        \<lparr>sessionId = Some ''s'', prompt = Some ''hi''\<rparr>) ''s''
      = Some [turn ''user'' ''u'', turn ''model'' ''m'']
   \<and> callFails (\<lambda>q t. Inr [1]) (\<lambda>h m. Inl (Exn ''blocked''))
        (SendMessage [turn ''user'' ''u'', turn ''model'' ''m''] (fullPrompt [] ''hi''))
   \<and> reply (chat (\<lambda>q t. Inr [1]) (\<lambda>a b. 1) (\<lambda>h m. Inl (Exn ''blocked'')) []
        [''s'' \<mapsto> [turn ''user'' ''u'', turn ''model'' ''m'']]
        \<lparr>sessionId = Some ''s'', prompt = Some ''hi''\<rparr>)
      = \<lparr>status = 500, body = ErrorBody ''An internal server error occurred.''\<rparr>
   \<and> cache (chat (\<lambda>q t. Inr [1]) (\<lambda>a b. 1) (\<lambda>h m. Inl (Exn ''blocked'')) []
        [''s'' \<mapsto> [turn ''user'' ''u'', turn ''model'' ''m'']]
        \<lparr>sessionId = Some ''s'', prompt = Some ''hi''\<rparr>) ''s''
      = Some [turn ''user'' ''u'', turn ''model'' ''m'']"
proof -
  let ?cos = "\<lambda>(a::real list) (b::real list). (1::real)"
  let ?cache = "[''s'' \<mapsto> [turn ''user'' ''u'', turn ''model'' ''m'']]"
  let ?req = "\<lparr>sessionId = Some ''s'', prompt = Some ''hi''\<rparr>"
  let ?embed = "\<lambda>(q::string) (t::task_type). (Inl (Exn ''quota'') :: exn + real list)"
  let ?send = "\<lambda>(h::jsval list) (m::string).
                 (Inr ([], Some ''answer'') :: exn + jsval list \<times> string option)"
  let ?store = "[\<lparr>chunk_text = ''a'', embedding = [1]\<rparr>]"
  let ?out = "chat ?embed ?cos ?send ?store ?cache ?req"
  have fails: "callFails ?embed ?send (EmbedContent ('' '' @ newline @ '' hi'') RETRIEVAL_QUERY)"
    by (simp add: callFails_def)
  have query: "combinedQuery ''hi'' [turn ''user'' ''u'', turn ''model'' ''m'']
      = Inr ('' '' @ newline @ '' hi'')"
    by (simp add: combinedQuery_def recentHistoryText_def sliceFrom_def slice_def join_def
        turn_def optionalChain_def nullish_def)
  have trace: "calls ?out = [EmbedContent ('' '' @ newline @ '' hi'') RETRIEVAL_QUERY]"
    by (simp add: chat_def falsy_def retrieveRelevantChunksVector_def query)
  from fails trace have hyp: "\<exists>c \<in> set (calls ?out). callFails ?embed ?send c" by simp
  from chat_collaborator_failure [of ?embed ?cos ?send ?store ?cache ?req, OF hyp]
  have "status (reply ?out) = 500"
    and "body (reply ?out) = ErrorBody ''An internal server error occurred.''"
    and "cache ?out = ?cache"
    by blast+
  then have one: "reply ?out = \<lparr>status = 500, body = ErrorBody ''An internal server error occurred.''\<rparr>"
    and two: "cache ?out ''s'' = Some [turn ''user'' ''u'', turn ''model'' ''m'']"
    by simp_all
  let ?embed' = "\<lambda>(q::string) (t::task_type). (Inr [1] :: exn + real list)"
  let ?send' = "\<lambda>(h::jsval list) (m::string).
                  (Inl (Exn ''blocked'') :: exn + jsval list \<times> string option)"
  let ?out' = "chat ?embed' ?cos ?send' [] ?cache ?req"
  have fails': "callFails ?embed' ?send'
      (SendMessage [turn ''user'' ''u'', turn ''model'' ''m''] (fullPrompt [] ''hi''))"
    by (simp add: callFails_def)
  have trace': "calls ?out'
      = [SendMessage [turn ''user'' ''u'', turn ''model'' ''m''] (fullPrompt [] ''hi'')]"
    by (simp add: chat_def Let_def falsy_def retrieveRelevantChunksVector_def)
  from fails' trace' have hyp': "\<exists>c \<in> set (calls ?out'). callFails ?embed' ?send' c" by simp
  from chat_collaborator_failure [of ?embed' ?cos ?send' "[]" ?cache ?req, OF hyp']
  have "status (reply ?out') = 500"
    and "body (reply ?out') = ErrorBody ''An internal server error occurred.''"
    and "cache ?out' = ?cache"
    by blast+
  then have three: "reply ?out' = \<lparr>status = 500, body = ErrorBody ''An internal server error occurred.''\<rparr>"
    and four: "cache ?out' ''s'' = Some [turn ''user'' ''u'', turn ''model'' ''m'']"
    by simp_all
  from fails one two fails' three four show ?thesis by (intro conjI)
qed

text \<open>
  Claim C9. A request whose \<open>sessionId\<close> or \<open>prompt\<close> is missing or empty is answered
  with status 400 and the body \<open>{error: 'sessionId and prompt are required'}\<close>; the
  session cache is unchanged and no service is called. A request with both fields
  present and non-empty is not answered with 400.
\<close>

theorem chat_requires_fields:
  "(sessionId req = None \<or> sessionId req = Some [] \<or> prompt req = None \<or> prompt req = Some []
      \<longrightarrow> chat embedContent cosineSimilarity sendMessage store sessionCache req
          = \<lparr> reply = \<lparr> status = 400, body = ErrorBody ''sessionId and prompt are required'' \<rparr>,
              cache = sessionCache, calls = [] \<rparr>)
   \<and> ((\<exists>sid p. sessionId req = Some sid \<and> sid \<noteq> [] \<and> prompt req = Some p \<and> p \<noteq> [])
      \<longrightarrow> status (reply (chat embedContent cosineSimilarity sendMessage store sessionCache req))
          \<noteq> 400)"
proof (intro conjI impI)
  assume "sessionId req = None \<or> sessionId req = Some [] \<or> prompt req = None \<or> prompt req = Some []"
  then have "falsy (sessionId req) \<or> falsy (prompt req)"
    by (auto simp: falsy_def)
  then show "chat embedContent cosineSimilarity sendMessage store sessionCache req
          = \<lparr> reply = \<lparr> status = 400, body = ErrorBody ''sessionId and prompt are required'' \<rparr>,
              cache = sessionCache, calls = [] \<rparr>"
    by (rule chat_rejects)
next
  assume "\<exists>sid p. sessionId req = Some sid \<and> sid \<noteq> [] \<and> prompt req = Some p \<and> p \<noteq> []"
  then have valid: "\<not> falsy (sessionId req)" "\<not> falsy (prompt req)"
    by (auto simp: falsy_def)
  from chat_outcomes [where embedContent = embedContent and cosineSimilarity = cosineSimilarity
      and sendMessage = sendMessage and store = store and sessionCache = sessionCache
      and req = req, OF valid]
  show "status (reply (chat embedContent cosineSimilarity sendMessage store sessionCache req))
          \<noteq> 400"
    by auto
qed

theorem chat_requires_fields_witness:
  "chat (\<lambda>q t. Inr [1]) (\<lambda>a b. 1) (\<lambda>h m. Inr ([], Some ''answer'')) []
     [''s'' \<mapsto> [turn ''user'' ''u'', turn ''model'' ''m'']]
     \<lparr>sessionId = Some ''s'', prompt = None\<rparr>
     = \<lparr> reply = \<lparr> status = 400, body = ErrorBody ''sessionId and prompt are required'' \<rparr>,
         cache = [''s'' \<mapsto> [turn ''user'' ''u'', turn ''model'' ''m'']], calls = [] \<rparr>
   \<and> status (reply (chat (\<lambda>q t. Inr [1]) (\<lambda>a b. 1) (\<lambda>h m. Inr ([], Some ''answer'')) []
        [''s'' \<mapsto> [turn ''user'' ''u'', turn ''model'' ''m'']]
        \<lparr>sessionId = Some ''s'', prompt = Some ''hi''\<rparr>)) \<noteq> 400"
  using chat_requires_fields [of "\<lparr>sessionId = Some ''s'', prompt = None\<rparr>"
      "\<lambda>q t. Inr [1]" "\<lambda>a b. 1" "\<lambda>h m. Inr ([], Some ''answer'')" "[]"
      "[''s'' \<mapsto> [turn ''user'' ''u'', turn ''model'' ''m'']]"]
    chat_requires_fields [of "\<lparr>sessionId = Some ''s'', prompt = Some ''hi''\<rparr>"
      "\<lambda>q t. Inr [1]" "\<lambda>a b. 1" "\<lambda>h m. Inr ([], Some ''answer'')" "[]"
      "[''s'' \<mapsto> [turn ''user'' ''u'', turn ''model'' ''m'']]"]
  by simp

text \<open>
  A request that is answered with status 200 stores, for its session, the turns that
  were stored before, then the turns the chat session pushed onto the array it shares
  with the handler, then the two turns of the handler: the user turn with the
  submitted prompt and the model turn with the text of the response body. The turns of
  every other session are unchanged.
\<close>

lemma chat_success_stores:
  fixes embedContent :: embed_service and cosineSimilarity :: "real list \<Rightarrow> real list \<Rightarrow> real"
    and sendMessage :: generate_service and store :: "chunk list"
    and sessionCache :: session_cache and req :: request
  defines "out \<equiv> chat embedContent cosineSimilarity sendMessage store sessionCache req"
  assumes success: "status (reply out) = 200"
  shows "\<exists>sid p finalText pushed.
           sessionId req = Some sid \<and> prompt req = Some p
         \<and> body (reply out) = ResponseBody finalText
         \<and> cache out sid
             = Some ((case sessionCache sid of None \<Rightarrow> [] | Some turns \<Rightarrow> turns)
                     @ pushed
                     @ [JObj [(''role'', JStr ''user''),
                              (''parts'', JArr [JObj [(''text'', JStr p)]])],
                        JObj [(''role'', JStr ''model''),
                              (''parts'', JArr [JObj [(''text'', JStr finalText)]])]])
         \<and> (\<forall>other. other \<noteq> sid \<longrightarrow> cache out other = sessionCache other)"
proof -
  have valid: "\<not> falsy (sessionId req)" "\<not> falsy (prompt req)"
    using success chat_rejects [of req embedContent cosineSimilarity sendMessage store sessionCache]
    unfolding out_def by auto
  then obtain sid p where fields: "sessionId req = Some sid" "prompt req = Some p"
    by (auto simp: falsy_def split: option.splits)
  from chat_outcomes [where embedContent = embedContent and cosineSimilarity = cosineSimilarity
      and sendMessage = sendMessage and store = store and sessionCache = sessionCache
      and req = req, OF valid, folded out_def] success
  obtain finalText pushed where
    "reply out = \<lparr> status = 200, body = ResponseBody finalText \<rparr>"
    "cache out = sessionCache(the (sessionId req) \<mapsto>
        (case sessionCache (the (sessionId req)) of None \<Rightarrow> [] | Some turns \<Rightarrow> turns)
        @ pushed @ [turn ''user'' (the (prompt req)), turn ''model'' finalText])"
    by auto
  with fields show ?thesis by (simp add: turn_def)
qed

text \<open>
  Claim C10 says that a successful request appends exactly two turns. The handler
  gives its array \<open>chatHistory\<close> to \<open>startChat\<close>, pushes its two turns onto the same
  array and stores it. A chat session that records the message it sent and the answer
  it got on its history, as the session of the generation library does, has pushed two
  turns onto that array before the handler pushes its own: the first request of a
  session stores four turns, the sent full prompt, the answer, the prompt and the
  answer again.
\<close>

theorem chat_stores_four_turns:
  "chat (\<lambda>q t. Inr [1]) (\<lambda>a b. 1)
     (\<lambda>h m. Inr ([JObj [(''role'', JStr ''user''), (''parts'', JArr [JObj [(''text'', JStr m)]])],
                    JObj [(''role'', JStr ''model''),
                          (''parts'', JArr [JObj [(''text'', JStr ''answer'')]])]],
                   Some ''answer''))
     [] Map.empty \<lparr>sessionId = Some ''s'', prompt = Some ''hi''\<rparr>
   = \<lparr> reply = \<lparr> status = 200, body = ResponseBody ''answer'' \<rparr>,
       cache = [''s'' \<mapsto>
         [JObj [(''role'', JStr ''user''),
                (''parts'', JArr [JObj [(''text'', JStr (fullPrompt [] ''hi''))]])],
          JObj [(''role'', JStr ''model''), (''parts'', JArr [JObj [(''text'', JStr ''answer'')]])],
          JObj [(''role'', JStr ''user''), (''parts'', JArr [JObj [(''text'', JStr ''hi'')]])],
          JObj [(''role'', JStr ''model''), (''parts'', JArr [JObj [(''text'', JStr ''answer'')]])]]],
       calls = [SendMessage [] (fullPrompt [] ''hi'')] \<rparr>"
  by (simp add: chat_def Let_def falsy_def retrieveRelevantChunksVector_def trim_def
      isWhiteSpaceChar_def turn_def)

section \<open>Properties of the loader\<close>

lemma wellFormedStore_accepted:
  "wellFormedStore_spec v \<Longrightarrow> \<not> jsonFalsy v \<and> \<not> lengthIsZero v"
  by (cases v) auto

lemma loadEmbeddings_Loaded_iff:
  "loadEmbeddings readFile parse = Loaded v \<longleftrightarrow>
     (\<exists>data. readFile = Inr data \<and> parse data = Inr v \<and> \<not> jsonFalsy v \<and> \<not> lengthIsZero v)"
  by (auto simp: loadEmbeddings_def split: sum.splits)

lemma loadEmbeddings_exit_code:
  "loadEmbeddings readFile parse = ProcessExit code \<Longrightarrow> code = 1"
  by (auto simp: loadEmbeddings_def split: sum.splits if_splits)

lemma startServer_Listening_iff:
  "startServer readFile parse = Listening v \<longleftrightarrow> loadEmbeddings readFile parse = Loaded v"
  by (auto simp: startServer_def split: load_result.splits)

lemma startServer_Exited:
  "startServer readFile parse = Exited code \<Longrightarrow> code = 1"
  by (auto simp: startServer_def split: load_result.splits dest: loadEmbeddings_exit_code)

text \<open>
  Claim C8, as stated, says that the load fails for every input that is not a non-empty
  sequence of well-formed records. The function checks that the parsed value is truthy
  and that its \<open>length\<close> is not \<open>0\<close>, and nothing about the records: a file whose
  content parses to the array \<open>[1]\<close> is loaded and the server starts.
\<close>

theorem loadEmbeddings_malformed_counterexample:
  "\<not> wellFormedStore_spec (JsonArray [JsonNumber 1])
   \<and> loadEmbeddings (Inr ''[1]'') (\<lambda>data. Inr (JsonArray [JsonNumber 1]))
       = Loaded (JsonArray [JsonNumber 1])
   \<and> startServer (Inr ''[1]'') (\<lambda>data. Inr (JsonArray [JsonNumber 1]))
       = Listening (JsonArray [JsonNumber 1])"
  by (simp add: loadEmbeddings_def startServer_def)

text \<open>
  Claim C8, amended. Start-up ends in \<open>process.exit(1)\<close>, and the server never listens,
  when the file cannot be read, when its content is not JSON, and when the parsed
  value is falsy or has length \<open>0\<close>, in particular for the empty store. In every other
  case the parsed value becomes the store and the server listens: for every well-formed
  non-empty store, and for any other value that is truthy and whose length is not \<open>0\<close>.
\<close>

theorem startServer_outcome:
  "(\<forall>v. startServer readFile parse = Listening v \<longleftrightarrow>
        (\<exists>data. readFile = Inr data \<and> parse data = Inr v \<and> \<not> jsonFalsy v \<and> \<not> lengthIsZero v))
   \<and> ((\<forall>v. startServer readFile parse \<noteq> Listening v) \<longrightarrow> startServer readFile parse = Exited 1)
   \<and> (\<forall>data v. readFile = Inr data \<and> parse data = Inr v \<and> wellFormedStore_spec v
         \<longrightarrow> startServer readFile parse = Listening v)
   \<and> (\<forall>data. readFile = Inr data \<and> parse data = Inr (JsonArray [])
         \<longrightarrow> startServer readFile parse = Exited 1)"
proof (intro conjI allI impI)
  fix v
  show "startServer readFile parse = Listening v \<longleftrightarrow>
        (\<exists>data. readFile = Inr data \<and> parse data = Inr v \<and> \<not> jsonFalsy v \<and> \<not> lengthIsZero v)"
    by (simp only: startServer_Listening_iff loadEmbeddings_Loaded_iff)
next
  assume "\<forall>v. startServer readFile parse \<noteq> Listening v"
  then obtain code where "startServer readFile parse = Exited code"
    by (cases "startServer readFile parse") auto
  with startServer_Exited [OF this] show "startServer readFile parse = Exited 1" by simp
next
  fix data v
  assume "readFile = Inr data \<and> parse data = Inr v \<and> wellFormedStore_spec v"
  with wellFormedStore_accepted [of v]
  show "startServer readFile parse = Listening v"
    by (auto simp: startServer_Listening_iff loadEmbeddings_Loaded_iff)
next
  fix data
  assume "readFile = Inr data \<and> parse data = Inr (JsonArray [])"
  then show "startServer readFile parse = Exited 1"
    by (simp add: startServer_def loadEmbeddings_def)
qed

theorem startServer_outcome_witness:
  "wellFormedStore_spec
     (JsonArray [JsonObject [(''text'', JsonString ''a''), (''embedding'', JsonArray [JsonNumber 1])]])
   \<and> startServer (Inr ''file'')
        (\<lambda>data. Inr (JsonArray [JsonObject [(''text'', JsonString ''a''),
                                            (''embedding'', JsonArray [JsonNumber 1])]]))
      = Listening (JsonArray [JsonObject [(''text'', JsonString ''a''),
                                          (''embedding'', JsonArray [JsonNumber 1])]])
   \<and> startServer (Inr ''[]'') (\<lambda>data. Inr (JsonArray [])) = Exited 1
   \<and> startServer (Inl (Exn ''ENOENT'')) (\<lambda>data. Inr (JsonArray [])) = Exited 1"
proof -
  let ?store = "JsonArray [JsonObject [(''text'', JsonString ''a''),
                                       (''embedding'', JsonArray [JsonNumber 1])]]"
  have wf: "wellFormedStore_spec ?store" by simp
  have never: "\<forall>v. startServer (Inl (Exn ''ENOENT'')) (\<lambda>data. Inr (JsonArray [])) \<noteq> Listening v"
    by (simp add: startServer_def loadEmbeddings_def)
  from startServer_outcome [of "Inr ''file''" "\<lambda>data. Inr ?store"] wf
  have one: "startServer (Inr ''file'') (\<lambda>data. Inr ?store) = Listening ?store"
    by blast
  from startServer_outcome [of "Inr ''[]''" "\<lambda>data. Inr (JsonArray [])"]
  have two: "startServer (Inr ''[]'') (\<lambda>data. Inr (JsonArray [])) = Exited 1"
    by blast
  from startServer_outcome [of "Inl (Exn ''ENOENT'')" "\<lambda>data. Inr (JsonArray [])"] never
  have three: "startServer (Inl (Exn ''ENOENT'')) (\<lambda>data. Inr (JsonArray [])) = Exited 1"
    by blast
  from wf one two three show ?thesis by (intro conjI)
qed

section \<open>Further properties\<close>

text \<open>
  The sanitizer never introduces a character from outside the class: when the tables
  know the space as a space separator, every code point of the output is in the class
  \<^verbatim>\<open>[\p{L}\p{N}\p{P}\p{Zs}\n\r\t]\<close>.
\<close>

theorem sanitizeText_only_kept:
  assumes "isSpaceSeparator U 32"
  shows "\<forall>c \<in> set (sanitizeText U x). inKeptClass U c"
proof -
  let ?a = "replaceDisallowed U x"
  have "set (sanitizeText U x) \<subseteq> insert 32 (set ?a)"
    unfolding sanitizeText_def
    using set_trim [of "isWhiteSpace U" "collapseNewlines (collapseBlanks ?a)"]
      set_collapseNewlines [of "collapseBlanks ?a"] set_collapseBlanks [of ?a]
    by blast
  moreover have "\<forall>c \<in> set ?a. inKeptClass U c \<or> c = 32"
    using onlyKept_replaceDisallowed [of U x] by (simp add: onlyKept_def list_all_iff)
  moreover have "inKeptClass U 32" using assms by (simp add: inKeptClass_def)
  ultimately show ?thesis by blast
qed

theorem sanitizeText_only_kept_witness:
  "isSpaceSeparator asciiCategories 32
   \<and> sanitizeText asciiCategories [97, 36, 0, 98] = [97, 32, 98]
   \<and> list_all (inKeptClass asciiCategories) (sanitizeText asciiCategories [97, 36, 0, 98])"
proof -
  have sp: "isSpaceSeparator asciiCategories 32" by (simp add: asciiCategories_def)
  have run: "sanitizeText asciiCategories [97, 36, 0, 98] = [97, 32, 98]"
    by (simp add: sanitizeText_def replaceDisallowed_def inKeptClass_def asciiCategories_def
        isBlank_def isNewline_def isWhiteSpace_def trim_def)
  from sanitizeText_only_kept [OF sp, of "[97, 36, 0, 98]"]
  have "list_all (inKeptClass asciiCategories) (sanitizeText asciiCategories [97, 36, 0, 98])"
    by (simp only: list_all_iff)
  with sp run show ?thesis by (intro conjI)
qed

text \<open>A text of disallowed characters only is sanitized to the empty text.\<close>

lemma collapseBlanks_spaces:
  "collapseBlanks (replicate n 32) = (if n = 0 then [] else [32])"
proof (cases n)
  case 0
  then show ?thesis by simp
next
  case (Suc m)
  have "dropWhile isBlank (replicate m 32) = []" by simp
  with Suc show ?thesis by simp
qed

theorem sanitizeText_all_disallowed:
  assumes "\<forall>d \<in> set x. \<not> inKeptClass U d"
  shows "sanitizeText U x = []"
proof -
  have "collapseBlanks (replaceDisallowed U x) = (if length x = 0 then [] else [32])"
    using assms by (simp add: replaceDisallowed_all_disallowed collapseBlanks_spaces)
  then show ?thesis
    by (auto simp: sanitizeText_def trim_def isNewline_def isWhiteSpace_def)
qed

theorem sanitizeText_all_disallowed_witness:
  "\<not> inKeptClass asciiCategories 0 \<and> \<not> inKeptClass asciiCategories 36
   \<and> sanitizeText asciiCategories [0, 36, 0] = []"
proof -
  have dis: "\<forall>d \<in> set [0, 36, 0]. \<not> inKeptClass asciiCategories d"
    by (simp add: inKeptClass_def asciiCategories_def)
  from sanitizeText_all_disallowed [OF dis] dis show ?thesis by simp
qed

text \<open>
  With an empty store the retriever returns the empty sequence and does not call the
  embedding service.
\<close>

theorem retrieve_empty_store:
  "retrieveRelevantChunksVector embedContent cosineSimilarity [] query history topK = ([], Inr [])"
  by (simp add: retrieveRelevantChunksVector_def)

text \<open>
  When the generation service returns no text, or a text that is empty after trimming,
  the response and the model turn that the handler stores last both carry the fixed
  clarification request.
\<close>

theorem chat_substitutes_clarification:
  fixes embedContent :: embed_service and cosineSimilarity :: "real list \<Rightarrow> real list \<Rightarrow> real"
    and sendMessage :: generate_service and store :: "chunk list"
    and sessionCache :: session_cache and req :: request
  defines "out \<equiv> chat embedContent cosineSimilarity sendMessage store sessionCache req"
  defines "old \<equiv> (case sessionCache (the (sessionId req)) of None \<Rightarrow> [] | Some turns \<Rightarrow> turns)"
  assumes valid: "\<not> falsy (sessionId req)" "\<not> falsy (prompt req)"
    and retrieved: "snd (retrieveRelevantChunksVector embedContent cosineSimilarity store
                      (the (prompt req)) old 3) = Inr texts"
    and generated: "sendMessage old
                      (fullPrompt (joinStrings (newline @ newline @ ''---'' @ newline @ newline) texts)
                         (the (prompt req))) = Inr (pushed, result)"
    and blank: "result = None \<or> (\<exists>t. result = Some t \<and> trim isWhiteSpaceChar t = [])"
  shows "reply out = \<lparr> status = 200, body = ResponseBody clarification \<rparr>
       \<and> cache out (the (sessionId req))
           = Some (old @ pushed
                   @ [JObj [(''role'', JStr ''user''),
                            (''parts'', JArr [JObj [(''text'', JStr (the (prompt req)))]])],
                      JObj [(''role'', JStr ''model''),
                            (''parts'', JArr [JObj [(''text'', JStr clarification)]])]])"
proof -
  obtain cs where ret:
    "retrieveRelevantChunksVector embedContent cosineSimilarity store (the (prompt req)) old 3
       = (cs, Inr texts)"
    using retrieved
    by (cases "retrieveRelevantChunksVector embedContent cosineSimilarity store
                 (the (prompt req)) old 3") auto
  from blank valid ret generated show ?thesis
    unfolding out_def old_def by (auto simp: chat_def Let_def trim_def turn_def)
qed

theorem chat_substitutes_clarification_witness:
  "chat (\<lambda>q t. Inr [1]) (\<lambda>a b. 1) (\<lambda>h m. Inr ([], Some ''  '')) [] Map.empty
     \<lparr>sessionId = Some ''s'', prompt = Some ''hi''\<rparr>
   = \<lparr> reply = \<lparr> status = 200, body = ResponseBody clarification \<rparr>,
       cache = [''s'' \<mapsto> [turn ''user'' ''hi'', turn ''model'' clarification]],
       calls = [SendMessage [] (fullPrompt [] ''hi'')] \<rparr>
   \<and> cache (chat (\<lambda>q t. Inr [1]) (\<lambda>a b. 1) (\<lambda>h m. Inr ([], Some ''  '')) [] Map.empty
        \<lparr>sessionId = Some ''s'', prompt = Some ''hi''\<rparr>) ''s''
     = Some [JObj [(''role'', JStr ''user''), (''parts'', JArr [JObj [(''text'', JStr ''hi'')]])],
             JObj [(''role'', JStr ''model''),
                   (''parts'', JArr [JObj [(''text'', JStr clarification)]])]]"
proof -
  let ?embed = "\<lambda>(q::string) (t::task_type). (Inr [1] :: exn + real list)"
  let ?send = "\<lambda>(h::jsval list) (m::string).
                 (Inr ([], Some ''  '') :: exn + jsval list \<times> string option)"
  let ?cos = "\<lambda>(a::real list) (b::real list). (1::real)"
  let ?req = "\<lparr>sessionId = Some ''s'', prompt = Some ''hi''\<rparr>"
  let ?out = "chat ?embed ?cos ?send [] Map.empty ?req"
  have run: "?out
     = \<lparr> reply = \<lparr> status = 200, body = ResponseBody clarification \<rparr>,
         cache = [''s'' \<mapsto> [turn ''user'' ''hi'', turn ''model'' clarification]],
         calls = [SendMessage [] (fullPrompt [] ''hi'')] \<rparr>"
    by (simp add: chat_def Let_def falsy_def retrieveRelevantChunksVector_def trim_def
        isWhiteSpaceChar_def)
  have v1: "\<not> falsy (sessionId ?req)" and v2: "\<not> falsy (prompt ?req)"
    by (simp_all add: falsy_def)
  have r: "snd (retrieveRelevantChunksVector ?embed ?cos [] (the (prompt ?req))
        (case Map.empty (the (sessionId ?req)) of None \<Rightarrow> [] | Some turns \<Rightarrow> turns) 3) = Inr []"
    by (simp add: retrieveRelevantChunksVector_def)
  have g: "?send (case Map.empty (the (sessionId ?req)) of None \<Rightarrow> [] | Some turns \<Rightarrow> turns)
      (fullPrompt (joinStrings (newline @ newline @ ''---'' @ newline @ newline) [])
         (the (prompt ?req))) = Inr ([], Some ''  '')"
    by simp
  have b: "Some ''  '' = None \<or> (\<exists>t. Some ''  '' = Some t \<and> trim isWhiteSpaceChar t = [])"
    by (simp add: trim_def isWhiteSpaceChar_def)
  from chat_substitutes_clarification
    [where embedContent = ?embed and cosineSimilarity = ?cos and sendMessage = ?send
       and store = "[]" and sessionCache = Map.empty and req = ?req, OF v1 v2 r g b]
  have "cache ?out ''s''
     = Some [JObj [(''role'', JStr ''user''), (''parts'', JArr [JObj [(''text'', JStr ''hi'')]])],
             JObj [(''role'', JStr ''model''),
                   (''parts'', JArr [JObj [(''text'', JStr clarification)]])]]"
    by simp
  with run show ?thesis by (intro conjI)
qed

end
